theory Spec2Isabelle
  imports Complex_Main
begin

section \<open>The one-dimensional Gaussian GAN model\<close>

text \<open>
  The two notebooks \<^verbatim>\<open>OneDimGaussianGAN.ipynb\<close> and \<^verbatim>\<open>NonSaturatingGAN.ipynb\<close>
  evaluate closed-form densities, the optimal discriminator and a value curve over a
  grid of sample points. An elementwise tensor operation is modelled as a function of
  one sample point, and a tensor of sample points as a list.

  The tensors of the source hold floating-point numbers. The formulas are modelled
  twice. The definitions of this section take a tensor entry as a \<^typ>\<open>real\<close> and give
  the exact value of each formula; rounding, overflow and underflow are outside them.
  The section on floating-point evaluation below repeats the density and the
  discriminator with every operation rounded to the tensor's format; it is used where
  underflow decides a property (whether a density is positive, whether the
  discriminator stays below 1).
\<close>

subsection \<open>Densities and discriminator (both notebooks)\<close>

text \<open>
  \<^verbatim>\<open>def gaussian_model(x, mean, variance):
    return torch.exp(-(x - mean) ** 2 / variance) / torch.sqrt(2 * torch.pi * variance)\<close>
  In Python the power binds tighter than the unary minus.
\<close>

definition gaussian_model :: "real \<Rightarrow> real \<Rightarrow> real \<Rightarrow> real" where
  "gaussian_model x mean variance =
     exp ((- ((x - mean) ^ 2)) / variance) / sqrt (2 * pi * variance)"

text \<open>
  \<^verbatim>\<open>def make_gaussian_model(mean, variance):
    return lambda x: gaussian_model(x, torch.tensor(mean), torch.tensor(variance))\<close>
\<close>

definition make_gaussian_model :: "real \<Rightarrow> real \<Rightarrow> (real \<Rightarrow> real)" where
  "make_gaussian_model mean variance = (\<lambda>x. gaussian_model x mean variance)"

text \<open>
  \<^verbatim>\<open>def discriminator(x, p_true, p_gen):
    return p_true(x) / (p_true(x) + p_gen(x))\<close>
\<close>

definition discriminator :: "real \<Rightarrow> (real \<Rightarrow> real) \<Rightarrow> (real \<Rightarrow> real) \<Rightarrow> real" where
  "discriminator x p_true p_gen = p_true x / (p_true x + p_gen x)"

subsection \<open>Value function of \<^verbatim>\<open>OneDimGaussianGAN.ipynb\<close>\<close>

text \<open>\<^verbatim>\<open>loghalf = math.log(0.5)\<close>\<close>

definition loghalf :: real where
  "loghalf = ln (1 / 2)"

text \<open>
  \<^verbatim>\<open>t.clamp(1e-50)\<close>: the first positional argument of \<^verbatim>\<open>clamp\<close> is the lower bound.
\<close>

definition clamp_min :: "real \<Rightarrow> real \<Rightarrow> real" where
  "clamp_min t lo = max t lo"

text \<open>
  The notebook defines \<^verbatim>\<open>value_fn\<close> twice; the second definition replaces the first and
  is the one every call reaches:
  \<^verbatim>\<open>def value_fn(x, p_true, p_gen, rule='v'):
    d = discriminator(x, p_true, p_gen)
    constant = loghalf if rule == 'js' else 0
    return p_true(x) * (torch.log(d) - constant)
         + p_gen(x) * (torch.log((1 - d).clamp(1e-50)) - constant)\<close>
\<close>

definition value_fn ::
  "real \<Rightarrow> (real \<Rightarrow> real) \<Rightarrow> (real \<Rightarrow> real) \<Rightarrow> string \<Rightarrow> real" where
  "value_fn x p_true p_gen rule =
     (let d = discriminator x p_true p_gen;
          constant = (if rule = ''js'' then loghalf else 0)
      in p_true x * (ln d - constant)
         + p_gen x * (ln (clamp_min (1 - d) (1 / 10 ^ 50)) - constant))"

subsection \<open>Value function of \<^verbatim>\<open>NonSaturatingGAN.ipynb\<close>\<close>

text \<open>
  \<^verbatim>\<open>def value_fn(x, p_true, p_gen):
    d = discriminator(x, p_true, p_gen)
    return p_gen(x) * torch.log(d)\<close>
  The name is the same in both notebooks; this one carries the notebook's prefix.
\<close>

definition nonsaturating_value_fn ::
  "real \<Rightarrow> (real \<Rightarrow> real) \<Rightarrow> (real \<Rightarrow> real) \<Rightarrow> real" where
  "nonsaturating_value_fn x p_true p_gen =
     (let d = discriminator x p_true p_gen in p_gen x * ln d)"

subsection \<open>The sample grid\<close>

text \<open>
  \<^verbatim>\<open>torch.arange(start, end, step)\<close> has \<open>\<lceil>(end - start) / step\<rceil>\<close> entries
  \<open>start + i * step\<close>.
\<close>

definition arange :: "real \<Rightarrow> real \<Rightarrow> real \<Rightarrow> real list" where
  "arange start end step =
     map (\<lambda>i. start + real i * step) [0 ..< nat \<lceil>(end - start) / step\<rceil>]"

text \<open>\<^verbatim>\<open>x_range = torch.arange(-3, 6, 0.1, dtype=torch.double)\<close>\<close>

definition x_range :: "real list" where
  "x_range = arange (- 3) 6 (1 / 10)"

text \<open>
  Modelled from the spec: the notebooks only plot the curves and compute no integral;
  the "sample-grid trapezoidal sum" of the specification is the composite trapezoidal
  rule over consecutive grid points.
\<close>

fun trapz :: "(real \<Rightarrow> real) \<Rightarrow> real list \<Rightarrow> real" where
  "trapz f (a # b # xs) = (b - a) * (f a + f b) / 2 + trapz f (b # xs)"
| "trapz f xs = 0"

section \<open>Floating-point evaluation of the density and the discriminator\<close>

text \<open>
  A binary floating-point format is given by its precision (the number of significand
  bits) and its least normal exponent. \<^verbatim>\<open>torch.double\<close> is binary64 and
  \<^verbatim>\<open>torch.float32\<close>, the default type of \<^verbatim>\<open>torch.tensor\<close> and \<^verbatim>\<open>torch.arange\<close>, is
  binary32.
\<close>

record format =
  precision :: nat
  min_exponent :: int

definition binary64 :: format where
  "binary64 = \<lparr>precision = 53, min_exponent = - 1022\<rparr>"

definition binary32 :: format where
  "binary32 = \<lparr>precision = 24, min_exponent = - 126\<rparr>"

text \<open>
  Rounding to the nearest integer, ties to the even one; \<open>fl f r\<close> rounds the real
  \<open>r\<close> to the nearest number of format \<open>f\<close>: the magnitude is rounded to a multiple
  of the spacing \<open>quantum f \<bar>r\<bar>\<close> of the format at that magnitude (subnormal spacing
  below the least normal exponent), and the sign is kept. A result of a magnitude below
  half the least subnormal number is therefore 0. The format's largest number is not
  modelled: overflow to infinity, and with it \<^verbatim>\<open>inf\<close> and the sign of zero, are
  outside the model.
\<close>

definition round_even :: "real \<Rightarrow> int" where
  "round_even t =
     (let n = \<lfloor>t\<rfloor>; d = t - of_int n
      in if d < 1 / 2 then n else if 1 / 2 < d then n + 1 else if even n then n else n + 1)"

definition quantum_exp :: "format \<Rightarrow> real \<Rightarrow> int" where
  "quantum_exp f t = max \<lfloor>log 2 t\<rfloor> (min_exponent f) - (int (precision f) - 1)"

definition quantum :: "format \<Rightarrow> real \<Rightarrow> real" where
  "quantum f t = 2 powr of_int (quantum_exp f t)"

definition fl_mag :: "format \<Rightarrow> real \<Rightarrow> real" where
  "fl_mag f t = of_int (round_even (t / quantum f t)) * quantum f t"

definition fl :: "format \<Rightarrow> real \<Rightarrow> real" where
  "fl f r = sgn r * fl_mag f \<bar>r\<bar>"

text \<open>The numbers of a format (used in proofs only).\<close>

definition representable :: "format \<Rightarrow> real \<Rightarrow> bool" where
  "representable f r =
     (\<exists>n k. r = of_int n * 2 powr of_int k \<and> \<bar>n\<bar> < 2 ^ precision f
            \<and> min_exponent f - (int (precision f) - 1) \<le> k)"

text \<open>
  \<^verbatim>\<open>gaussian_model\<close> with every operation rounded. \<open>fx\<close> is the format of the tensor
  \<^verbatim>\<open>x\<close> and \<open>fv\<close> that of the zero-dimensional tensors \<^verbatim>\<open>mean\<close> and \<^verbatim>\<open>variance\<close>:
  an operation between \<^verbatim>\<open>x\<close> and one of them is carried out in \<open>fx\<close>, and
  \<^verbatim>\<open>torch.sqrt(2 * torch.pi * variance)\<close> in \<open>fv\<close>, where \<^verbatim>\<open>2 * torch.pi\<close> is the
  double of the binary64 number nearest to \<open>pi\<close>. \<^verbatim>\<open>torch.exp\<close> and \<^verbatim>\<open>torch.sqrt\<close>
  are taken as correctly rounded.
\<close>

definition fp_gaussian_model :: "format \<Rightarrow> format \<Rightarrow> real \<Rightarrow> real \<Rightarrow> real \<Rightarrow> real" where
  "fp_gaussian_model fx fv x mean variance =
     fl fx (fl fx (exp (fl fx (- fl fx ((fl fx (x - mean)) ^ 2) / variance)))
            / fl fv (sqrt (fl fv (fl fv (2 * fl binary64 pi) * variance))))"

text \<open>
  \<^verbatim>\<open>make_gaussian_model\<close>: \<^verbatim>\<open>torch.tensor(mean)\<close> and \<^verbatim>\<open>torch.tensor(variance)\<close> round
  the Python numbers to binary32.
\<close>

definition fp_make_gaussian_model :: "format \<Rightarrow> real \<Rightarrow> real \<Rightarrow> (real \<Rightarrow> real)" where
  "fp_make_gaussian_model fx mean variance =
     (\<lambda>x. fp_gaussian_model fx binary32 x (fl binary32 mean) (fl binary32 variance))"


section \<open>Auxiliary definitions for the numeric bounds\<close>

text \<open>
  The statements about grid integrals need rational enclosures of
  \<open>exp (- k\<^sup>2 / 100)\<close> for the grid offsets \<open>k / 10\<close>. They are computed in fixed-point
  integer arithmetic with outward rounding, starting from
  \<open>exp (- (k + 1)\<^sup>2 / 100) = exp (- k\<^sup>2 / 100) * exp (- (2 * k + 1) / 100)\<close>.
  None of this is part of the notebooks; it only serves the proofs.
\<close>

definition scale :: int where
  "scale = 10 ^ 9"

text \<open>
  A row holds an enclosure of \<open>exp (- k\<^sup>2 / 100)\<close> and one of
  \<open>exp (- (2 * k + 1) / 100)\<close>, both scaled by \<open>scale\<close>; the next row follows by
  multiplying the first by the second and the second by \<open>exp (- 2 / 100)\<close>, rounding
  the lower ends down and the upper ends up.
\<close>

definition next_row :: "(int \<times> int) \<times> (int \<times> int) \<Rightarrow> (int \<times> int) \<times> (int \<times> int)" where
  "next_row s =
     (case s of
        ((al, ah), (rl, rh)) \<Rightarrow>
          ((al * rl div scale, ah * rh div scale + 1),
           (rl * 980198673 div scale, rh * 980198674 div scale + 1)))"

fun exp_table :: "nat \<Rightarrow> (int \<times> int) \<times> (int \<times> int)" where
  "exp_table 0 = ((scale, scale), (990049833, 990049834))"
| "exp_table (Suc k) = next_row (exp_table k)"

definition exp_lo :: "nat \<Rightarrow> int" where
  "exp_lo k = fst (fst (exp_table k))"

definition exp_hi :: "nat \<Rightarrow> int" where
  "exp_hi k = snd (fst (exp_table k))"

text \<open>The first rows of the table as a list, so that they are evaluated once.\<close>

fun exp_rows_from :: "nat \<Rightarrow> (int \<times> int) \<times> (int \<times> int) \<Rightarrow> (int \<times> int) list" where
  "exp_rows_from 0 s = [fst s]"
| "exp_rows_from (Suc n) s = fst s # exp_rows_from n (next_row s)"

definition exp_bounds :: "(int \<times> int) list" where
  "exp_bounds = exp_rows_from 60 (exp_table 0)"

text \<open>The real numbers that the table encloses, and the two sums over the grid.\<close>

definition gauss_exp :: "int \<Rightarrow> real" where
  "gauss_exp j = exp (- ((real_of_int j) ^ 2) / 100)"

definition gauss_step :: "nat \<Rightarrow> real" where
  "gauss_step k = exp (- (2 * real k + 1) / 100)"

definition gauss_sum :: real where
  "gauss_sum = (\<Sum>i\<leftarrow>[0 ..< 89]. gauss_exp (int i - 30) + gauss_exp (int i - 29))"

definition gauss_sq_sum :: real where
  "gauss_sq_sum = (\<Sum>i\<leftarrow>[0 ..< 89]. (gauss_exp (int i - 60)) ^ 2 + (gauss_exp (int i - 59)) ^ 2)"

section \<open>Basic facts\<close>

lemma gaussian_model_pos:
  "0 < variance \<Longrightarrow> 0 < gaussian_model x mean variance"
  by (simp add: gaussian_model_def)

lemma gm_pos: "0 < v \<Longrightarrow> 0 < make_gaussian_model m v x"
  by (simp add: make_gaussian_model_def gaussian_model_pos)

lemma loghalf_eq: "loghalf = - ln 2"
  by (simp add: loghalf_def ln_div)

lemma discriminator_complement:
  assumes "0 < p_true x" and "0 < p_gen x"
  shows "1 - discriminator x p_true p_gen = p_gen x / (p_true x + p_gen x)"
proof -
  have "p_true x + p_gen x \<noteq> 0" using assms by simp
  then show ?thesis
    by (simp add: discriminator_def field_simps)
qed


lemma value_fn_shift:
  "value_fn x p_true p_gen ''js'' =
     value_fn x p_true p_gen ''v'' - (p_true x + p_gen x) * loghalf"
  by (simp add: value_fn_def Let_def algebra_simps)

lemma gaussian_model_le_peak:
  assumes "0 < v"
  shows "gaussian_model x m v \<le> 1 / sqrt (2 * pi * v)"
proof -
  have "- ((x - m) ^ 2) / v \<le> 0"
    using assms by (simp add: divide_nonpos_pos)
  then have "exp (- ((x - m) ^ 2) / v) \<le> 1"
    by simp
  then show ?thesis
    unfolding gaussian_model_def using assms by (intro divide_right_mono) simp_all
qed

lemma gaussian_model_rescale:
  assumes "0 < v"
  shows "gaussian_model (m + sqrt v * u) m v = gaussian_model u 0 1 / sqrt v"
proof -
  have "(sqrt v * u) ^ 2 = v * u ^ 2"
    using assms by (simp add: power_mult_distrib)
  then have "- ((m + sqrt v * u - m) ^ 2) / v = - ((u - 0) ^ 2) / 1"
    using assms by simp
  moreover have "sqrt (2 * pi * v) = sqrt (2 * pi * 1) * sqrt v"
    by (simp add: real_sqrt_mult)
  ultimately show ?thesis
    unfolding gaussian_model_def by simp
qed

section \<open>The trapezoidal sum\<close>

lemma trapz_add: "trapz (\<lambda>x. f x + g x) xs = trapz f xs + trapz g xs"
  by (induction f xs rule: trapz.induct) (simp_all add: field_simps)

lemma trapz_cmult: "trapz (\<lambda>x. c * f x) xs = c * trapz f xs"
  by (induction f xs rule: trapz.induct) (simp_all add: field_simps)

lemma trapz_diff: "trapz (\<lambda>x. f x - g x) xs = trapz f xs - trapz g xs"
  by (induction f xs rule: trapz.induct) (simp_all add: field_simps)

lemma trapz_mono:
  "sorted xs \<Longrightarrow> (\<And>x. x \<in> set xs \<Longrightarrow> f x \<le> g x) \<Longrightarrow> trapz f xs \<le> trapz g xs"
proof (induction f xs rule: trapz.induct)
  case (1 f a b xs)
  have ab: "a \<le> b" using "1.prems"(1) by simp
  have "f a + f b \<le> g a + g b"
    using "1.prems"(2) by (simp add: add_mono)
  then have "(b - a) * (f a + f b) / 2 \<le> (b - a) * (g a + g b) / 2"
    using ab by (simp add: mult_left_mono divide_right_mono)
  moreover have "trapz f (b # xs) \<le> trapz g (b # xs)"
    using "1.prems" by (intro "1.IH") simp_all
  ultimately show ?case by simp
qed simp_all

lemma trapz_affine: "trapz f (map (\<lambda>u. m + s * u) xs) = s * trapz (\<lambda>u. f (m + s * u)) xs"
  by (induction xs rule: induct_list012) (simp_all add: field_simps)

lemma trapz_map_upt:
  "m \<le> n \<Longrightarrow> trapz f (map h [m ..< Suc n])
     = (\<Sum>i\<leftarrow>[m ..< n]. (h (Suc i) - h i) * (f (h i) + f (h (Suc i))) / 2)"
proof (induction rule: inc_induct)
  case base
  show ?case by simp
next
  case (step k)
  have "[k ..< Suc n] = k # Suc k # [Suc (Suc k) ..< Suc n]"
    using step.hyps by (simp add: upt_conv_Cons)
  moreover have "[Suc k ..< Suc n] = Suc k # [Suc (Suc k) ..< Suc n]"
    using step.hyps by (simp add: upt_conv_Cons)
  moreover have "[k ..< n] = k # [Suc k ..< n]"
    using step.hyps by (simp add: upt_conv_Cons)
  ultimately show ?case
    using step.IH by simp
qed

lemma x_range_eq: "x_range = map (\<lambda>i. (real i - 30) / 10) [0 ..< 90]"
  by (simp add: x_range_def arange_def field_simps)

lemma sorted_x_range: "sorted x_range"
proof -
  have "sorted_wrt (\<lambda>i j. (real i - 30) / 10 \<le> (real j - 30) / 10) [0 ..< 90]"
    by (rule sorted_wrt_mono_rel [OF _ sorted_wrt_upt]) (simp add: divide_right_mono)
  then show ?thesis
    by (simp only: x_range_eq sorted_map)
qed

lemma trapz_x_range:
  "trapz f x_range
     = (\<Sum>i\<leftarrow>[0 ..< 89]. (f ((real i - 30) / 10) + f ((real i - 29) / 10)) / 20)"
proof -
  have "trapz f (map (\<lambda>i. (real i - 30) / 10) [0 ..< Suc 89])
      = (\<Sum>i\<leftarrow>[0 ..< 89]. ((real (Suc i) - 30) / 10 - (real i - 30) / 10)
            * (f ((real i - 30) / 10) + f ((real (Suc i) - 30) / 10)) / 2)"
    by (rule trapz_map_upt) simp
  moreover have "((real i - 29) / 10 - (real i - 30) / 10) * X / 2 = X / 20" for i and X :: real
    by (simp add: field_simps)
  ultimately show ?thesis
    by (simp add: x_range_eq)
qed

lemma trapz_value_fn_shift:
  "trapz (\<lambda>x. value_fn x p_true p_gen ''js'') grid
     = trapz (\<lambda>x. value_fn x p_true p_gen ''v'') grid
       - loghalf * trapz (\<lambda>x. p_true x + p_gen x) grid"
proof -
  have "(\<lambda>x. value_fn x p_true p_gen ''js'')
      = (\<lambda>x. value_fn x p_true p_gen ''v'' - loghalf * (p_true x + p_gen x))"
    by (rule ext) (simp add: value_fn_shift algebra_simps)
  then show ?thesis
    by (simp only: trapz_diff trapz_cmult)
qed

lemma trapz_rescaled_grid:
  assumes "0 < v"
  shows "trapz (\<lambda>x. gaussian_model x m v) (map (\<lambda>u. m + sqrt v * u) x_range)
           = trapz (\<lambda>x. gaussian_model x 0 1) x_range"
proof -
  have "trapz (\<lambda>x. gaussian_model x m v) (map (\<lambda>u. m + sqrt v * u) x_range)
      = sqrt v * trapz (\<lambda>u. gaussian_model u 0 1 / sqrt v) x_range"
    unfolding trapz_affine gaussian_model_rescale [OF assms] ..
  also have "\<dots> = sqrt v * ((1 / sqrt v) * trapz (\<lambda>u. gaussian_model u 0 1) x_range)"
    using trapz_cmult [of "1 / sqrt v" "\<lambda>u. gaussian_model u 0 1" x_range] by simp
  also have "\<dots> = trapz (\<lambda>u. gaussian_model u 0 1) x_range"
    using assms by simp
  finally show ?thesis .
qed

section \<open>Bounds on the exponential and the logarithm\<close>

lemma exp_nat_lower: "2 ^ n \<le> exp (real n)"
proof -
  have "(2::real) \<le> exp 1"
    using exp_ge_add_one_self [of 1] by simp
  then have "(2::real) ^ n \<le> exp 1 ^ n"
    by (intro power_mono) simp_all
  also have "exp (1::real) ^ n = exp (real n)"
    by (simp add: exp_of_nat_mult [symmetric])
  finally show ?thesis .
qed

lemma exp_minus_nat_upper: "exp (- real n) \<le> 1 / 2 ^ n"
proof -
  have "exp (- real n) = 1 / exp (real n)"
    by (simp add: exp_minus inverse_eq_divide)
  also have "\<dots> \<le> 1 / 2 ^ n"
    using exp_nat_lower [of n] by (intro divide_left_mono) simp_all
  finally show ?thesis .
qed

lemma exp_neg_taylor:
  fixes y :: real
  assumes "0 \<le> y"
  shows "even n \<Longrightarrow> (\<Sum>m<n. (- y) ^ m / fact m) \<le> exp (- y)"
    and "odd n \<Longrightarrow> exp (- y) \<le> (\<Sum>m<n. (- y) ^ m / fact m)"
proof -
  obtain t where t: "exp (- y) = (\<Sum>m<n. (- y) ^ m / fact m) + (exp t / fact n) * (- y) ^ n"
    using Maclaurin_exp_le [of "- y" n] by blast
  have c: "0 \<le> exp t / fact n" by simp
  { assume "even n"
    then have "0 \<le> (- y) ^ n" by (simp add: zero_le_even_power)
    then have "0 \<le> (exp t / fact n) * (- y) ^ n"
      using c by (rule mult_nonneg_nonneg [rotated])
    then show "(\<Sum>m<n. (- y) ^ m / fact m) \<le> exp (- y)"
      using t by linarith }
  { assume "odd n"
    then have "(- y) ^ n \<le> 0"
      using assms by (simp add: power_minus_odd)
    then have "(exp t / fact n) * (- y) ^ n \<le> 0"
      using c by (rule mult_nonneg_nonpos [rotated])
    then show "exp (- y) \<le> (\<Sum>m<n. (- y) ^ m / fact m)"
      using t by linarith }
qed

lemma taylor8: "(\<Sum>m<8. (x::real) ^ m / fact m)
   = 1 + x + x^2/2 + x^3/6 + x^4/24 + x^5/120 + x^6/720 + x^7/5040"
  by (simp add: eval_nat_numeral lessThan_Suc fact_numeral)

lemma taylor9: "(\<Sum>m<9. (x::real) ^ m / fact m)
   = 1 + x + x^2/2 + x^3/6 + x^4/24 + x^5/120 + x^6/720 + x^7/5040 + x^8/40320"
  by (simp add: eval_nat_numeral lessThan_Suc fact_numeral)

lemma exp_c1: "990049833 / 10 ^ 9 \<le> exp (- (1 / 100) :: real)"
    "exp (- (1 / 100) :: real) \<le> 990049834 / 10 ^ 9"
proof -
  have "990049833 / 10 ^ 9 \<le> (\<Sum>m<8. (- (1 / 100) :: real) ^ m / fact m)"
    unfolding taylor8 by (simp add: power_divide)
  also have "\<dots> \<le> exp (- (1 / 100))"
    by (rule exp_neg_taylor(1)) simp_all
  finally show "990049833 / 10 ^ 9 \<le> exp (- (1 / 100) :: real)" .
  have "exp (- (1 / 100) :: real) \<le> (\<Sum>m<9. (- (1 / 100) :: real) ^ m / fact m)"
    by (rule exp_neg_taylor(2)) simp_all
  also have "\<dots> \<le> 990049834 / 10 ^ 9"
    unfolding taylor9 by (simp add: power_divide)
  finally show "exp (- (1 / 100) :: real) \<le> 990049834 / 10 ^ 9" .
qed

lemma exp_c2: "980198673 / 10 ^ 9 \<le> exp (- (2 / 100) :: real)"
    "exp (- (2 / 100) :: real) \<le> 980198674 / 10 ^ 9"
proof -
  have "980198673 / 10 ^ 9 \<le> (\<Sum>m<8. (- (2 / 100) :: real) ^ m / fact m)"
    unfolding taylor8 by (simp add: power_divide)
  also have "\<dots> \<le> exp (- (2 / 100))"
    by (rule exp_neg_taylor(1)) simp_all
  finally show "980198673 / 10 ^ 9 \<le> exp (- (2 / 100) :: real)" .
  have "exp (- (2 / 100) :: real) \<le> (\<Sum>m<9. (- (2 / 100) :: real) ^ m / fact m)"
    by (rule exp_neg_taylor(2)) simp_all
  also have "\<dots> \<le> 980198674 / 10 ^ 9"
    unfolding taylor9 by (simp add: power_divide)
  finally show "exp (- (2 / 100) :: real) \<le> 980198674 / 10 ^ 9" .
qed

lemma ln_two_lower: "69 / 100 \<le> ln (2::real)"
proof -
  have "(1 / 2 :: real) \<le> (\<Sum>m<8. (- (69 / 100)) ^ m / fact m)"
    unfolding taylor8 by (simp add: power_divide)
  also have "\<dots> \<le> exp (- (69 / 100))"
    by (rule exp_neg_taylor(1)) simp_all
  finally have "exp (- ln (2::real)) \<le> exp (- (69 / 100))"
    by (simp add: exp_minus)
  then show ?thesis by simp
qed

lemma ln_four: "ln (4::real) = 2 * ln 2"
proof -
  have "ln ((2::real) * 2) = ln 2 + ln 2"
    by (rule ln_mult_pos) simp_all
  then show ?thesis by simp
qed

lemma ln_lower: "0 < y \<Longrightarrow> 1 - 1 / y \<le> ln (y::real)"
proof -
  assume y: "0 < y"
  then have "ln (1 / y) \<le> 1 / y - 1"
    by (intro ln_le_minus_one) simp
  moreover have "ln (1 / y) = - ln y"
    using y by (simp add: ln_divide_pos)
  ultimately show ?thesis by simp
qed

section \<open>Bounds on \<open>pi\<close> from the sine at \<open>pi / 6\<close>\<close>

lemma sin_taylor7: "(\<Sum>m<7. sin_coeff m * (x::real) ^ m) = x - x^3/6 + x^5/120"
  by (simp add: eval_nat_numeral lessThan_Suc sin_coeff_Suc cos_coeff_Suc)

lemma sin_taylor_bounds:
  fixes x :: real
  assumes "0 \<le> x"
  shows "sin x \<le> x - x^3/6 + x^5/120 + x^7/5040"
    and "x - x^3/6 + x^5/120 - x^7/5040 \<le> sin x"
proof -
  have "\<bar>sin x - (\<Sum>m<7. sin_coeff m * x ^ m)\<bar> \<le> inverse (fact 7) * \<bar>x\<bar> ^ 7"
    by (rule Maclaurin_sin_bound)
  moreover have "inverse (fact 7) * \<bar>x\<bar> ^ 7 = x^7/5040"
    using assms by (simp add: fact_numeral)
  ultimately have "\<bar>sin x - (x - x^3/6 + x^5/120)\<bar> \<le> x^7/5040"
    by (simp only: sin_taylor7)
  then show "sin x \<le> x - x^3/6 + x^5/120 + x^7/5040"
    and "x - x^3/6 + x^5/120 - x^7/5040 \<le> sin x"
    by linarith+
qed

lemma pi_lower: "314 / 100 < pi"
proof (rule ccontr)
  assume "\<not> 314 / 100 < pi"
  then have le: "pi / 6 \<le> 157 / 300" by simp
  have "157 / 300 \<le> pi / 2"
    using pi_ge_two by simp
  with le have "sin (pi / 6) \<le> sin (157 / 300 :: real)"
    by (intro sin_monotone_2pi_le) simp_all
  moreover have "sin (157 / 300 :: real) < 1 / 2"
  proof -
    have "sin (157 / 300 :: real)
        \<le> 157 / 300 - (157 / 300)^3/6 + (157 / 300)^5/120 + (157 / 300)^7/5040"
      by (rule sin_taylor_bounds) simp
    also have "\<dots> < 1 / 2"
      by (simp add: power_divide)
    finally show ?thesis .
  qed
  ultimately show False
    by (simp add: sin_30)
qed

lemma pi_upper: "pi < 3142 / 1000"
proof (rule ccontr)
  assume "\<not> pi < 3142 / 1000"
  then have le: "1571 / 3000 \<le> pi / 6" by simp
  have "pi / 6 \<le> pi / 2" by simp
  with le have "sin (1571 / 3000 :: real) \<le> sin (pi / 6)"
    by (intro sin_monotone_2pi_le) simp_all
  moreover have "1 / 2 < sin (1571 / 3000 :: real)"
  proof -
    have "1 / 2 < (1571 / 3000 :: real) - (1571 / 3000)^3/6 + (1571 / 3000)^5/120 - (1571 / 3000)^7/5040"
      by (simp add: power_divide)
    also have "\<dots> \<le> sin (1571 / 3000 :: real)"
      by (rule sin_taylor_bounds) simp
    finally show ?thesis .
  qed
  ultimately show False
    by (simp add: sin_30)
qed

lemma sqrt_pi_bounds: "1772 / 1000 < sqrt pi" "sqrt pi < 17726 / 10000"
proof -
  have "(1772 / 1000 :: real) ^ 2 < pi"
    using pi_lower by (simp add: power_divide)
  then show "1772 / 1000 < sqrt pi"
    by (rule real_less_rsqrt)
  have "pi < (17726 / 10000 :: real) ^ 2"
    using pi_upper by (simp add: power_divide)
  then show "sqrt pi < 17726 / 10000"
    by (intro real_less_lsqrt) simp_all
qed

lemma sqrt_two_pi_lower: "5 / 2 < sqrt (2 * pi)"
proof -
  have "(5 / 2 :: real) ^ 2 < 2 * pi"
    using pi_lower by (simp add: power_divide)
  then show ?thesis
    by (rule real_less_rsqrt)
qed

lemma sqrt_two_pi_upper: "sqrt (2 * pi) < 3"
  using pi_upper by (intro real_less_lsqrt) simp_all

lemma inv_sqrt_two_upper: "1 / sqrt 2 < (7072 / 10000 :: real)"
proof -
  have "(10000 / 7072 :: real) ^ 2 < 2"
    by (simp add: power_divide)
  then have "10000 / 7072 < sqrt (2::real)"
    by (rule real_less_rsqrt)
  then show ?thesis
    by (simp add: field_simps)
qed

section \<open>Soundness of the fixed-point table\<close>

lemma floor_div_bounds:
  fixes a :: int
  shows "real_of_int (a div scale) \<le> real_of_int a / real_of_int scale"
    and "real_of_int a / real_of_int scale \<le> real_of_int (a div scale + 1)"
proof -
  have eq: "real_of_int (a div scale) = real_of_int \<lfloor>real_of_int a / real_of_int scale\<rfloor>"
    by (simp add: floor_divide_of_int_eq)
  show "real_of_int (a div scale) \<le> real_of_int a / real_of_int scale"
    unfolding eq by (rule of_int_floor_le)
  have "real_of_int a / real_of_int scale
      \<le> real_of_int \<lfloor>real_of_int a / real_of_int scale\<rfloor> + 1"
    by (rule real_of_int_floor_add_one_ge)
  then show "real_of_int a / real_of_int scale \<le> real_of_int (a div scale + 1)"
    using eq by simp
qed

lemma interval_mult:
  fixes al ah bl bh :: int and a b :: real
  assumes "0 \<le> al" "real_of_int al / real_of_int scale \<le> a" "a \<le> real_of_int ah / real_of_int scale"
    and "0 \<le> bl" "real_of_int bl / real_of_int scale \<le> b" "b \<le> real_of_int bh / real_of_int scale"
  shows "0 \<le> al * bl div scale"
    and "real_of_int (al * bl div scale) / real_of_int scale \<le> a * b"
    and "a * b \<le> real_of_int (ah * bh div scale + 1) / real_of_int scale"
proof -
  have s: "0 < real_of_int scale" by (simp add: scale_def)
  have s0: "0 < scale" by (simp add: scale_def)
  have al: "0 \<le> real_of_int al / real_of_int scale" and bl: "0 \<le> real_of_int bl / real_of_int scale"
    using assms(1,4) s by simp_all
  then have a0: "0 \<le> a" and b0: "0 \<le> b"
    using assms(2,5) by linarith+
  show "0 \<le> al * bl div scale"
    using assms(1,4) s0 by (simp add: pos_imp_zdiv_nonneg_iff)
  have "real_of_int (al * bl div scale) / real_of_int scale
      \<le> (real_of_int (al * bl) / real_of_int scale) / real_of_int scale"
    using s by (intro divide_right_mono floor_div_bounds) simp
  also have "\<dots> = (real_of_int al / real_of_int scale) * (real_of_int bl / real_of_int scale)"
    by simp
  also have "\<dots> \<le> a * b"
    using assms(2,5) al bl by (intro mult_mono) (use a0 in simp_all)
  finally show "real_of_int (al * bl div scale) / real_of_int scale \<le> a * b" .
  have "a * b \<le> (real_of_int ah / real_of_int scale) * (real_of_int bh / real_of_int scale)"
    using assms(3,6) a0 b0 by (intro mult_mono) (use a0 assms(3) in linarith)+
  also have "\<dots> = (real_of_int (ah * bh) / real_of_int scale) / real_of_int scale"
    by simp
  also have "\<dots> \<le> real_of_int (ah * bh div scale + 1) / real_of_int scale"
    using s by (intro divide_right_mono floor_div_bounds) simp
  finally show "a * b \<le> real_of_int (ah * bh div scale + 1) / real_of_int scale" .
qed

lemma gauss_exp_Suc: "gauss_exp (int (Suc k)) = gauss_exp (int k) * gauss_step k"
proof -
  have "- ((real_of_int (int (Suc k))) ^ 2) / 100
      = - ((real_of_int (int k)) ^ 2) / 100 + (- (2 * real k + 1) / 100)"
    by (simp add: power2_eq_square field_simps)
  then show ?thesis
    unfolding gauss_exp_def gauss_step_def by (simp only: exp_add)
qed

lemma gauss_step_Suc: "gauss_step (Suc k) = gauss_step k * exp (- (2 / 100))"
proof -
  have "- (2 * real (Suc k) + 1) / 100 = - (2 * real k + 1) / 100 + (- (2 / 100))"
    by (simp add: field_simps)
  then show ?thesis
    unfolding gauss_step_def by (simp only: exp_add)
qed

lemma exp_table_sound:
  "case exp_table k of
     ((al, ah), (rl, rh)) \<Rightarrow>
       0 \<le> al \<and> real_of_int al / real_of_int scale \<le> gauss_exp (int k)
       \<and> gauss_exp (int k) \<le> real_of_int ah / real_of_int scale
       \<and> 0 \<le> rl \<and> real_of_int rl / real_of_int scale \<le> gauss_step k
       \<and> gauss_step k \<le> real_of_int rh / real_of_int scale"
proof (induction k)
  case 0
  show ?case
    using exp_c1 by (simp add: gauss_exp_def gauss_step_def scale_def)
next
  case (Suc k)
  obtain al ah rl rh where tab: "exp_table k = ((al, ah), (rl, rh))"
    by (metis surj_pair)
  from Suc.IH tab have
    a: "0 \<le> al" "real_of_int al / real_of_int scale \<le> gauss_exp (int k)"
       "gauss_exp (int k) \<le> real_of_int ah / real_of_int scale" and
    r: "0 \<le> rl" "real_of_int rl / real_of_int scale \<le> gauss_step k"
       "gauss_step k \<le> real_of_int rh / real_of_int scale"
    by simp_all
  have c: "(0::int) \<le> 980198673"
    "real_of_int 980198673 / real_of_int scale \<le> exp (- (2 / 100))"
    "exp (- (2 / 100)) \<le> real_of_int 980198674 / real_of_int scale"
    using exp_c2 by (simp_all add: scale_def)
  note ar = interval_mult [OF a r]
  note rc = interval_mult [OF r c]
  show ?case
    using ar rc by (simp add: tab next_row_def gauss_exp_Suc gauss_step_Suc del: of_nat_Suc)
qed

lemma gauss_exp_bounds:
  "real_of_int (exp_lo (nat \<bar>j\<bar>)) / real_of_int scale \<le> gauss_exp j"
  "gauss_exp j \<le> real_of_int (exp_hi (nat \<bar>j\<bar>)) / real_of_int scale"
  "0 \<le> exp_lo (nat \<bar>j\<bar>)"
proof -
  have e: "gauss_exp (int (nat \<bar>j\<bar>)) = gauss_exp j"
    by (simp add: gauss_exp_def)
  obtain al ah rl rh where tab: "exp_table (nat \<bar>j\<bar>) = ((al, ah), (rl, rh))"
    by (metis surj_pair)
  with exp_table_sound [of "nat \<bar>j\<bar>"] e
  show "real_of_int (exp_lo (nat \<bar>j\<bar>)) / real_of_int scale \<le> gauss_exp j"
    "gauss_exp j \<le> real_of_int (exp_hi (nat \<bar>j\<bar>)) / real_of_int scale"
    "0 \<le> exp_lo (nat \<bar>j\<bar>)"
    by (simp_all add: exp_lo_def exp_hi_def)
qed

lemma exp_rows_from_nth:
  "k \<le> n \<Longrightarrow> exp_rows_from n (exp_table m) ! k = fst (exp_table (m + k))"
proof (induction n arbitrary: m k)
  case 0
  then show ?case by simp
next
  case (Suc n)
  show ?case
  proof (cases k)
    case 0
    then show ?thesis by simp
  next
    case (Suc j)
    then have "j \<le> n" using Suc.prems by simp
    then have "exp_rows_from n (exp_table (Suc m)) ! j = fst (exp_table (Suc m + j))"
      by (rule Suc.IH)
    then show ?thesis
      using Suc by simp
  qed
qed

lemma exp_bounds_nth:
  assumes "k \<le> 60"
  shows "exp_lo k = fst (exp_bounds ! k)" and "exp_hi k = snd (exp_bounds ! k)"
proof -
  have "exp_bounds ! k = fst (exp_table (0 + k))"
    unfolding exp_bounds_def using exp_rows_from_nth [OF assms, of 0] by simp
  then show "exp_lo k = fst (exp_bounds ! k)" and "exp_hi k = snd (exp_bounds ! k)"
    by (simp_all add: exp_lo_def exp_hi_def)
qed

lemma exp_bounds_value:
  "exp_bounds =
    [(1000000000, 1000000000), (990049833, 990049835), (960789436, 960789442), (913931179, 913931191),
     (852143780, 852143799), (778800772, 778800797), (697676312, 697676343), (612626378, 612626414),
     (527292406, 527292446), (444858048, 444858090), (367879423, 367879465), (298197262, 298197303),
     (236927742, 236927781), (184519509, 184519544), (140858407, 140858439), (105399212, 105399240),
     (77304730, 77304754), (55576204, 55576224), (39163888, 39163904), (27051841, 27051854),
     (18315634, 18315645), (12155174, 12155183), (7907051, 7907058), (5041758, 5041763),
     (3151110, 3151114), (1930453, 1930456), (1159228, 1159231), (682327, 682330),
     (393668, 393671), (222629, 222631), (123409, 123411), (67054, 67056),
     (35712, 35714), (18643, 18645), (9539, 9541), (4784, 4786),
     (2352, 2354), (1133, 1135), (535, 537), (247, 249),
     (112, 114), (49, 51), (21, 23), (8, 10),
     (3, 5), (1, 3), (0, 2), (0, 1),
     (0, 1), (0, 1), (0, 1), (0, 1),
     (0, 1), (0, 1), (0, 1), (0, 1),
     (0, 1), (0, 1), (0, 1), (0, 1),
     (0, 1)]"
  by code_simp

lemma sum_hi_value:
  "(\<Sum>i\<leftarrow>[0 ..< 89]. snd (exp_bounds ! nat \<bar>int i - 30\<bar>) + snd (exp_bounds ! nat \<bar>int i - 29\<bar>)) = 35448674496"
  unfolding exp_bounds_value by code_simp

lemma sum_lo_value:
  "(\<Sum>i\<leftarrow>[0 ..< 89]. fst (exp_bounds ! nat \<bar>int i - 30\<bar>) + fst (exp_bounds ! nat \<bar>int i - 29\<bar>)) = 35448672189"
  unfolding exp_bounds_value by code_simp

lemma sum_hi_sq_value:
  "(\<Sum>i\<leftarrow>[0 ..< 89]. (snd (exp_bounds ! nat \<bar>int i - 60\<bar>)) ^ 2 + (snd (exp_bounds ! nat \<bar>int i - 59\<bar>)) ^ 2)
     = 25066283502711330362"
  unfolding exp_bounds_value by code_simp

section \<open>The densities on the sample grid\<close>

lemma of_int_sum_list: "real_of_int (\<Sum>i\<leftarrow>xs. f i) = (\<Sum>i\<leftarrow>xs. real_of_int (f i))"
  by (induction xs) simp_all

lemma sum_list_divide_const: "(\<Sum>i\<leftarrow>xs. f i / c) = (\<Sum>i\<leftarrow>xs. f i) / (c::real)"
  by (induction xs) (simp_all add: add_divide_distrib)

lemma gaussian_grid_std:
  "gaussian_model ((real i - 30) / 10) 0 1 = gauss_exp (int i - 30) / sqrt (2 * pi)"
  "gaussian_model ((real i - 29) / 10) 0 1 = gauss_exp (int i - 29) / sqrt (2 * pi)"
  by (simp_all add: gaussian_model_def gauss_exp_def power_divide)

lemma gaussian_grid_true:
  "gaussian_model ((real i - 30) / 10) 3 (1 / 2) = (gauss_exp (int i - 60)) ^ 2 / sqrt pi"
  "gaussian_model ((real i - 29) / 10) 3 (1 / 2) = (gauss_exp (int i - 59)) ^ 2 / sqrt pi"
proof -
  have e: "exp (- (2 * y)) = (exp (- y)) ^ 2" for y :: real
    by (simp add: power2_eq_square exp_add [symmetric])
  have a: "(real i - 30) / 10 - 3 = real_of_int (int i - 60) / 10"
    and b: "(real i - 29) / 10 - 3 = real_of_int (int i - 59) / 10"
    by (simp_all add: field_simps)
  show "gaussian_model ((real i - 30) / 10) 3 (1 / 2) = (gauss_exp (int i - 60)) ^ 2 / sqrt pi"
    unfolding gaussian_model_def gauss_exp_def a
    using e [of "(real_of_int (int i - 60))\<^sup>2 / 100"] by (simp add: power_divide)
  show "gaussian_model ((real i - 29) / 10) 3 (1 / 2) = (gauss_exp (int i - 59)) ^ 2 / sqrt pi"
    unfolding gaussian_model_def gauss_exp_def b
    using e [of "(real_of_int (int i - 59))\<^sup>2 / 100"] by (simp add: power_divide)
qed

lemma trapz_std: "trapz (\<lambda>x. gaussian_model x 0 1) x_range = gauss_sum / (20 * sqrt (2 * pi))"
  unfolding trapz_x_range gaussian_grid_std gauss_sum_def
  by (simp add: sum_list_divide_const add_divide_distrib [symmetric])

lemma trapz_true: "trapz (\<lambda>x. gaussian_model x 3 (1 / 2)) x_range = gauss_sq_sum / (20 * sqrt pi)"
  unfolding trapz_x_range gaussian_grid_true gauss_sq_sum_def
  by (simp add: sum_list_divide_const add_divide_distrib [symmetric])

lemma gauss_exp_table:
  assumes "nat \<bar>j\<bar> \<le> 60"
  shows "real_of_int (fst (exp_bounds ! nat \<bar>j\<bar>)) / 10 ^ 9 \<le> gauss_exp j"
    and "gauss_exp j \<le> real_of_int (snd (exp_bounds ! nat \<bar>j\<bar>)) / 10 ^ 9"
    and "0 \<le> gauss_exp j"
  using gauss_exp_bounds [of j] exp_bounds_nth [OF assms]
  by (simp_all add: scale_def gauss_exp_def)

lemma gauss_sum_bounds: "35448672189 / 10 ^ 9 \<le> gauss_sum" "gauss_sum \<le> 35448674496 / 10 ^ 9"
proof -
  have idx: "nat \<bar>int i - 30\<bar> \<le> 60" "nat \<bar>int i - 29\<bar> \<le> 60" if "i \<in> set [0 ..< 89]" for i
    using that by auto
  have "(\<Sum>i\<leftarrow>[0 ..< 89]. real_of_int (fst (exp_bounds ! nat \<bar>int i - 30\<bar>)
            + fst (exp_bounds ! nat \<bar>int i - 29\<bar>)) / 10 ^ 9) \<le> gauss_sum"
    unfolding gauss_sum_def
    by (rule sum_list_mono)
      (use idx gauss_exp_table(1) in \<open>simp add: add_divide_distrib add_mono\<close>)
  then show "35448672189 / 10 ^ 9 \<le> gauss_sum"
    unfolding sum_list_divide_const of_int_sum_list [symmetric] sum_lo_value by simp
  have "gauss_sum \<le> (\<Sum>i\<leftarrow>[0 ..< 89]. real_of_int (snd (exp_bounds ! nat \<bar>int i - 30\<bar>)
            + snd (exp_bounds ! nat \<bar>int i - 29\<bar>)) / 10 ^ 9)"
    unfolding gauss_sum_def
    by (rule sum_list_mono)
      (use idx gauss_exp_table(2) in \<open>simp add: add_divide_distrib add_mono\<close>)
  then show "gauss_sum \<le> 35448674496 / 10 ^ 9"
    unfolding sum_list_divide_const of_int_sum_list [symmetric] sum_hi_value by simp
qed

lemma gauss_sq_sum_upper: "gauss_sq_sum \<le> 25066283502711330362 / 10 ^ 18"
proof -
  have idx: "nat \<bar>int i - 60\<bar> \<le> 60" "nat \<bar>int i - 59\<bar> \<le> 60" if "i \<in> set [0 ..< 89]" for i
    using that by auto
  have sq: "(gauss_exp j) ^ 2 \<le> real_of_int ((snd (exp_bounds ! nat \<bar>j\<bar>)) ^ 2) / 10 ^ 18"
    if "nat \<bar>j\<bar> \<le> 60" for j
  proof -
    have "(gauss_exp j) ^ 2 \<le> (real_of_int (snd (exp_bounds ! nat \<bar>j\<bar>)) / 10 ^ 9) ^ 2"
      using gauss_exp_table(2,3) [OF that] by (rule power_mono)
    then show ?thesis by (simp add: power_divide)
  qed
  have "gauss_sq_sum \<le> (\<Sum>i\<leftarrow>[0 ..< 89]. real_of_int ((snd (exp_bounds ! nat \<bar>int i - 60\<bar>)) ^ 2
            + (snd (exp_bounds ! nat \<bar>int i - 59\<bar>)) ^ 2) / 10 ^ 18)"
    unfolding gauss_sq_sum_def
  proof (rule sum_list_mono)
    fix i assume i: "i \<in> set [0 ..< 89]"
    have "(gauss_exp (int i - 60)) ^ 2 + (gauss_exp (int i - 59)) ^ 2
        \<le> real_of_int ((snd (exp_bounds ! nat \<bar>int i - 60\<bar>)) ^ 2) / 10 ^ 18
          + real_of_int ((snd (exp_bounds ! nat \<bar>int i - 59\<bar>)) ^ 2) / 10 ^ 18"
      by (intro add_mono sq idx i)
    then show "(gauss_exp (int i - 60)) ^ 2 + (gauss_exp (int i - 59)) ^ 2
        \<le> real_of_int ((snd (exp_bounds ! nat \<bar>int i - 60\<bar>)) ^ 2
            + (snd (exp_bounds ! nat \<bar>int i - 59\<bar>)) ^ 2) / 10 ^ 18"
      by (simp add: add_divide_distrib)
  qed
  then show ?thesis
    unfolding sum_list_divide_const of_int_sum_list [symmetric] sum_hi_sq_value by simp
qed

lemma trapz_std_near: "\<bar>trapz (\<lambda>x. gaussian_model x 0 1) x_range - 1 / sqrt 2\<bar> < 1 / 1000"
proof -
  let ?s = "sqrt (2 * pi)"
  have s: "5 / 2 < ?s" by (rule sqrt_two_pi_lower)
  have split: "?s = sqrt 2 * sqrt pi" by (rule real_sqrt_mult)
  have "1 / sqrt 2 = sqrt pi / ?s"
    unfolding split by simp
  then have eq: "trapz (\<lambda>x. gaussian_model x 0 1) x_range - 1 / sqrt 2
      = (gauss_sum / 20 - sqrt pi) / ?s"
    unfolding trapz_std by (simp add: diff_divide_distrib)
  have g: "35448672189 / 1000000000 \<le> gauss_sum" "gauss_sum \<le> 35448674496 / 1000000000"
    using gauss_sum_bounds by simp_all
  have "\<bar>gauss_sum / 20 - sqrt pi\<bar> < 1 / 1000 * (5 / 2)"
    using g sqrt_pi_bounds by linarith
  also have "\<dots> < 1 / 1000 * ?s"
    using s by simp
  finally have "\<bar>gauss_sum / 20 - sqrt pi\<bar> / ?s < 1 / 1000"
    using s by (simp add: pos_divide_less_eq)
  then show ?thesis
    unfolding eq using s by simp
qed

lemma trapz_std_upper: "trapz (\<lambda>x. gaussian_model x 0 1) x_range < 7082 / 10000"
  using trapz_std_near inv_sqrt_two_upper by linarith

lemma trapz_true_upper: "trapz (\<lambda>x. gaussian_model x 3 (1 / 2)) x_range < 7082 / 10000"
proof -
  have "gauss_sq_sum / (20 * sqrt pi) \<le> (25066283502711330362 / 10 ^ 18) / (20 * sqrt pi)"
    using gauss_sq_sum_upper sqrt_pi_bounds(1) by (intro divide_right_mono) simp_all
  also have "\<dots> \<le> (25066283502711330362 / 10 ^ 18) / (20 * (1772 / 1000))"
    using sqrt_pi_bounds(1) by (intro divide_left_mono mult_left_mono mult_pos_pos) simp_all
  also have "\<dots> < 7082 / 10000"
    by simp
  finally show ?thesis
    unfolding trapz_true .
qed

section \<open>The value curve at particular parameters\<close>


lemma value_fn_equal_params:
  assumes "0 < v"
  shows "value_fn x (make_gaussian_model m v) (make_gaussian_model m v) ''v''
           = (- ln 4) * gaussian_model x m v"
proof -
  have "0 < make_gaussian_model m v x"
    using assms by (rule gm_pos)
  then have d: "discriminator x (make_gaussian_model m v) (make_gaussian_model m v) = 1 / 2"
    by (simp add: discriminator_def)
  have c: "clamp_min (1 - 1 / 2) (1 / 10 ^ 50) = 1 / 2"
    by (simp add: clamp_min_def)
  have h: "ln (1 / 2 :: real) = - ln 2"
    by (simp add: ln_div)
  have "value_fn x (make_gaussian_model m v) (make_gaussian_model m v) ''v''
      = gaussian_model x m v * (- ln 2) + gaussian_model x m v * (- ln 2)"
    unfolding value_fn_def Let_def d c h by (simp add: make_gaussian_model_def)
  also have "\<dots> = (- ln 4) * gaussian_model x m v"
    unfolding ln_four by (simp add: algebra_simps)
  finally show ?thesis .
qed

lemma trapz_value_fn_equal_params:
  "trapz (\<lambda>x. value_fn x (make_gaussian_model 0 1) (make_gaussian_model 0 1) ''v'') x_range
     = (- ln 4) * trapz (\<lambda>x. gaussian_model x 0 1) x_range"
proof -
  have "(\<lambda>x. value_fn x (make_gaussian_model 0 1) (make_gaussian_model 0 1) ''v'')
      = (\<lambda>x. (- ln 4) * gaussian_model x 0 1)"
    by (rule ext, rule value_fn_equal_params) simp
  then show ?thesis
    by (simp only: trapz_cmult)
qed

lemma cross_entropy_lower:
  fixes a b :: real
  assumes a: "0 < a" and b: "0 < b"
  shows "- (a + b) * ln 2 \<le> a * ln (a / (a + b)) + b * ln (b / (a + b))"
proof -
  have ab: "0 < a + b" using a b by simp
  have "a * (1 - 1 / (2 * a / (a + b))) \<le> a * ln (2 * a / (a + b))"
    using a ab by (intro mult_left_mono ln_lower) simp_all
  moreover have "b * (1 - 1 / (2 * b / (a + b))) \<le> b * ln (2 * b / (a + b))"
    using b ab by (intro mult_left_mono ln_lower) simp_all
  moreover have "a * (1 - 1 / (2 * a / (a + b))) + b * (1 - 1 / (2 * b / (a + b))) = 0"
    using a b by (simp add: field_simps)
  moreover have "ln (2 * a / (a + b)) = ln 2 + ln (a / (a + b))"
    using a ab ln_mult_pos [of 2 "a / (a + b)"] by simp
  moreover have "ln (2 * b / (a + b)) = ln 2 + ln (b / (a + b))"
    using b ab ln_mult_pos [of 2 "b / (a + b)"] by simp
  ultimately have "0 \<le> a * (ln 2 + ln (a / (a + b))) + b * (ln 2 + ln (b / (a + b)))"
    by simp
  then show ?thesis
    by (simp add: algebra_simps)
qed

lemma value_fn_lower:
  assumes t: "0 < p_true x" and g: "0 < p_gen x"
  shows "- (p_true x + p_gen x) * ln 2 \<le> value_fn x p_true p_gen ''v''"
proof -
  let ?d = "discriminator x p_true p_gen"
  have c: "1 - ?d = p_gen x / (p_true x + p_gen x)"
    using t g by (rule discriminator_complement)
  have pos: "0 < p_gen x / (p_true x + p_gen x)"
    using t g by simp
  have "ln (p_gen x / (p_true x + p_gen x)) \<le> ln (clamp_min (1 - ?d) (1 / 10 ^ 50))"
    unfolding c clamp_min_def using pos by (subst ln_le_cancel_iff) simp_all
  then have "p_gen x * ln (p_gen x / (p_true x + p_gen x))
      \<le> p_gen x * ln (clamp_min (1 - ?d) (1 / 10 ^ 50))"
    using g by (intro mult_left_mono) simp_all
  moreover have "- (p_true x + p_gen x) * ln 2
      \<le> p_true x * ln (p_true x / (p_true x + p_gen x))
        + p_gen x * ln (p_gen x / (p_true x + p_gen x))"
    using t g by (rule cross_entropy_lower)
  ultimately show ?thesis
    by (simp add: value_fn_def Let_def discriminator_def)
qed

lemma gaussian_three: "make_gaussian_model 3 (1 / 2) 3 = 1 / sqrt pi"
    "make_gaussian_model 0 1 3 = exp (- real 9) / sqrt (2 * pi)"
    "make_gaussian_model 3 (1 / 2) 0 = exp (- real 18) / sqrt pi"
    "make_gaussian_model 0 1 0 = 1 / sqrt (2 * pi)"
  by (simp_all add: make_gaussian_model_def gaussian_model_def)

lemma discriminator_at_three:
  "9 / 10 < discriminator 3 (make_gaussian_model 3 (1 / 2)) (make_gaussian_model 0 1)"
proof -
  let ?t = "make_gaussian_model 3 (1 / 2) 3" and ?g = "make_gaussian_model 0 1 3"
  have tpos: "0 < ?t" and gpos: "0 < ?g"
    by (simp_all add: gm_pos)
  have "?g \<le> (1 / 2 ^ 9) / (5 / 2)"
    unfolding gaussian_three
    using exp_minus_nat_upper [of 9] sqrt_two_pi_lower by (intro frac_le) simp_all
  moreover have "1 / (17726 / 10000) < ?t"
    unfolding gaussian_three
    using sqrt_pi_bounds by (intro divide_strict_left_mono) simp_all
  ultimately have "9 * ?g < ?t"
    by simp
  then show ?thesis
    using tpos gpos by (simp add: discriminator_def field_simps)
qed

lemma discriminator_at_zero:
  "discriminator 0 (make_gaussian_model 3 (1 / 2)) (make_gaussian_model 0 1) < 1 / 5"
proof -
  let ?t = "make_gaussian_model 3 (1 / 2) 0" and ?g = "make_gaussian_model 0 1 0"
  have tpos: "0 < ?t" and gpos: "0 < ?g"
    by (simp_all add: gm_pos)
  have "?t \<le> (1 / 2 ^ 18) / (1772 / 1000)"
    unfolding gaussian_three
    using exp_minus_nat_upper [of 18] sqrt_pi_bounds by (intro frac_le) simp_all
  moreover have "1 / 3 < ?g"
    unfolding gaussian_three
    using sqrt_two_pi_upper sqrt_two_pi_lower by (intro divide_strict_left_mono) simp_all
  ultimately have "4 * ?t < ?g"
    by simp
  then show ?thesis
    using tpos gpos by (simp add: discriminator_def field_simps)
qed

lemma minimax_integral_lower:
  "- ln 4 < trapz (\<lambda>x. value_fn x (make_gaussian_model 3 (1 / 2)) (make_gaussian_model 0 1) ''v'')
              x_range"
proof -
  let ?t = "make_gaussian_model 3 (1 / 2)" and ?g = "make_gaussian_model 0 1"
  let ?S = "trapz (\<lambda>x. gaussian_model x 3 (1 / 2)) x_range
            + trapz (\<lambda>x. gaussian_model x 0 1) x_range"
  have "?S < 2"
    using trapz_true_upper trapz_std_upper by simp
  moreover have "0 < ln (2::real)"
    by simp
  ultimately have "ln 2 * ?S < ln 2 * 2"
    by (rule mult_strict_left_mono)
  then have "- ln 4 < (- ln 2) * ?S"
    unfolding ln_four by simp
  also have "\<dots> = trapz (\<lambda>x. (- ln 2) * (?t x + ?g x)) x_range"
    unfolding trapz_cmult make_gaussian_model_def trapz_add ..
  also have "\<dots> \<le> trapz (\<lambda>x. value_fn x ?t ?g ''v'') x_range"
  proof (rule trapz_mono [OF sorted_x_range])
    fix x
    have "- (?t x + ?g x) * ln 2 \<le> value_fn x ?t ?g ''v''"
      by (rule value_fn_lower) (simp_all add: gm_pos)
    then show "(- ln 2) * (?t x + ?g x) \<le> value_fn x ?t ?g ''v''"
      by (simp add: algebra_simps)
  qed
  finally show ?thesis .
qed

section \<open>Rounding: bounds and monotonicity of the magnitude\<close>

lemma round_even_floor: "\<lfloor>t\<rfloor> \<le> round_even t" "round_even t \<le> \<lfloor>t\<rfloor> + 1"
  by (simp_all add: round_even_def Let_def)

lemma round_even_of_int [simp]: "round_even (of_int n) = n"
  by (simp add: round_even_def)

lemma round_even_mono:
  assumes "t \<le> u"
  shows "round_even t \<le> round_even u"
proof (cases "\<lfloor>t\<rfloor> = \<lfloor>u\<rfloor>")
  case True
  then have "t - of_int \<lfloor>t\<rfloor> \<le> u - of_int \<lfloor>u\<rfloor>"
    using assms by simp
  then show ?thesis
    using True by (auto simp add: round_even_def Let_def)
next
  case False
  then have "\<lfloor>t\<rfloor> < \<lfloor>u\<rfloor>"
    using floor_mono [OF assms] by simp
  then show ?thesis
    using round_even_floor(2) [of t] round_even_floor(1) [of u] by linarith
qed

lemma round_even_nonneg: "0 \<le> t \<Longrightarrow> 0 \<le> round_even t"
  using round_even_mono [of "of_int 0" t] by (simp del: of_int_0)

lemma round_even_half: "0 \<le> t \<Longrightarrow> t \<le> 1 / 2 \<Longrightarrow> round_even t = 0"
proof -
  assume t: "0 \<le> t" "t \<le> 1 / 2"
  then have "\<lfloor>t\<rfloor> = 0" by (simp add: floor_eq_iff)
  then show ?thesis
    using t by (simp add: round_even_def Let_def)
qed

lemma round_even_ge: "of_int n \<le> t \<Longrightarrow> n \<le> round_even t"
  using round_even_mono [of "of_int n" t] by simp

lemma round_even_le: "t \<le> of_int n \<Longrightarrow> round_even t \<le> n"
  using round_even_mono [of t "of_int n"] by simp

lemma quantum_pos [simp]: "0 < quantum f t"
  by (simp add: quantum_def)

lemma quantum_nonneg [simp]: "0 \<le> quantum f t"
  by (simp add: quantum_def)

lemma floor_log_bounds:
  assumes "0 < t"
  shows "2 powr of_int \<lfloor>log 2 t\<rfloor> \<le> t" and "t < 2 powr of_int (\<lfloor>log 2 t\<rfloor> + 1)"
  using floor_log_eq_powr_iff [of t 2 "\<lfloor>log 2 t\<rfloor>"] assms by simp_all

lemma quantum_times_power:
  "quantum f t * 2 ^ precision f
     = 2 powr of_int (max \<lfloor>log 2 t\<rfloor> (min_exponent f) + 1)"
proof -
  have "quantum f t * 2 ^ precision f
      = 2 powr of_int (quantum_exp f t) * 2 powr real (precision f)"
    by (simp add: powr_realpow quantum_def)
  also have "\<dots> = 2 powr (of_int (quantum_exp f t) + real (precision f))"
    by (simp add: powr_add)
  also have "of_int (quantum_exp f t) + real (precision f)
      = of_int (max \<lfloor>log 2 t\<rfloor> (min_exponent f) + 1)"
    by (simp add: quantum_exp_def)
  finally show ?thesis .
qed

lemma quantum_times_half_power:
  assumes "1 \<le> precision f"
  shows "quantum f t * 2 ^ (precision f - 1)
     = 2 powr of_int (max \<lfloor>log 2 t\<rfloor> (min_exponent f))"
proof -
  have "quantum f t * 2 ^ (precision f - 1)
      = 2 powr of_int (quantum_exp f t) * 2 powr real (precision f - 1)"
    by (simp add: powr_realpow quantum_def)
  also have "\<dots> = 2 powr (of_int (quantum_exp f t) + real (precision f - 1))"
    by (simp add: powr_add)
  also have "of_int (quantum_exp f t) + real (precision f - 1)
      = of_int (max \<lfloor>log 2 t\<rfloor> (min_exponent f))"
    using assms by (simp add: quantum_exp_def of_nat_diff)
  finally show ?thesis .
qed

lemma round_even_ratio_le:
  assumes "0 < t"
  shows "round_even (t / quantum f t) \<le> 2 ^ precision f"
proof -
  have "t < 2 powr of_int (\<lfloor>log 2 t\<rfloor> + 1)"
    using assms by (rule floor_log_bounds)
  also have "\<dots> \<le> 2 powr of_int (max \<lfloor>log 2 t\<rfloor> (min_exponent f) + 1)"
    by simp
  also have "\<dots> = quantum f t * 2 ^ precision f"
    by (rule quantum_times_power [symmetric])
  finally have "t / quantum f t \<le> of_int (2 ^ precision f)"
    by (simp add: pos_divide_le_eq mult.commute)
  then show ?thesis
    by (rule round_even_le)
qed

lemma fl_mag_upper:
  assumes "0 < t"
  shows "fl_mag f t \<le> 2 powr of_int (max \<lfloor>log 2 t\<rfloor> (min_exponent f) + 1)"
proof -
  let ?q = "quantum f t"
  have "t < 2 powr of_int (\<lfloor>log 2 t\<rfloor> + 1)"
    using assms by (rule floor_log_bounds)
  also have "\<dots> \<le> 2 powr of_int (max \<lfloor>log 2 t\<rfloor> (min_exponent f) + 1)"
    by simp
  also have "\<dots> = ?q * 2 ^ precision f"
    by (rule quantum_times_power [symmetric])
  finally have "t / ?q \<le> of_int (2 ^ precision f)"
    by (simp add: pos_divide_le_eq mult.commute)
  then have "round_even (t / ?q) \<le> 2 ^ precision f"
    by (rule round_even_le)
  then have "of_int (round_even (t / ?q)) \<le> (2::real) ^ precision f"
    by (metis of_int_le_iff of_int_numeral of_int_power)
  then have "of_int (round_even (t / ?q)) * ?q \<le> 2 ^ precision f * ?q"
    by (intro mult_right_mono) simp_all
  then show ?thesis
    unfolding fl_mag_def using quantum_times_power [of f t] by (simp add: mult.commute)
qed

lemma fl_mag_lower:
  assumes "0 < t" and "min_exponent f \<le> \<lfloor>log 2 t\<rfloor>" and "1 \<le> precision f"
  shows "2 powr of_int \<lfloor>log 2 t\<rfloor> \<le> fl_mag f t"
proof -
  let ?q = "quantum f t"
  have m: "max \<lfloor>log 2 t\<rfloor> (min_exponent f) = \<lfloor>log 2 t\<rfloor>"
    using assms(2) by simp
  have B: "?q * 2 ^ (precision f - 1) = 2 powr of_int \<lfloor>log 2 t\<rfloor>"
    using quantum_times_half_power [OF assms(3), of t] m by simp
  also have "\<dots> \<le> t"
    using assms(1) by (rule floor_log_bounds)
  finally have "of_int (2 ^ (precision f - 1)) \<le> t / ?q"
    by (simp add: pos_le_divide_eq mult.commute)
  then have "2 ^ (precision f - 1) \<le> round_even (t / ?q)"
    by (rule round_even_ge)
  then have "(2::real) ^ (precision f - 1) \<le> of_int (round_even (t / ?q))"
    by (metis of_int_le_iff of_int_numeral of_int_power)
  then have A: "2 ^ (precision f - 1) * ?q \<le> of_int (round_even (t / ?q)) * ?q"
    by (intro mult_right_mono) simp_all
  have "2 powr of_int \<lfloor>log 2 t\<rfloor> = ?q * 2 ^ (precision f - 1)"
    by (rule B [symmetric])
  also have "\<dots> = 2 ^ (precision f - 1) * ?q"
    by (rule mult.commute)
  also note A
  finally show ?thesis
    unfolding fl_mag_def .
qed

lemma fl_mag_nonneg: "0 \<le> t \<Longrightarrow> 0 \<le> fl_mag f t"
  unfolding fl_mag_def by (intro mult_nonneg_nonneg) (simp_all add: round_even_nonneg)

lemma fl_mag_mono:
  assumes "0 < t" and "t \<le> u" and "1 \<le> precision f"
  shows "fl_mag f t \<le> fl_mag f u"
proof -
  have u: "0 < u" using assms by simp
  have l: "\<lfloor>log 2 t\<rfloor> \<le> \<lfloor>log 2 u\<rfloor>"
    using assms by (intro floor_mono) simp
  let ?et = "max \<lfloor>log 2 t\<rfloor> (min_exponent f)" and ?eu = "max \<lfloor>log 2 u\<rfloor> (min_exponent f)"
  have le: "?et \<le> ?eu" using l by simp
  show ?thesis
  proof (cases "?et = ?eu")
    case True
    then have q: "quantum f t = quantum f u"
      by (simp add: quantum_def quantum_exp_def)
    have "t / quantum f u \<le> u / quantum f u"
      using assms(2) by (simp add: divide_right_mono)
    then have "round_even (t / quantum f u)
        \<le> round_even (u / quantum f u)"
      by (rule round_even_mono)
    then show ?thesis
      unfolding fl_mag_def q by (intro mult_right_mono) simp_all
  next
    case False
    then have lt: "?et + 1 \<le> ?eu" using le by simp
    then have n: "min_exponent f \<le> \<lfloor>log 2 u\<rfloor>" and m: "?eu = \<lfloor>log 2 u\<rfloor>"
      by (simp_all add: max_def split: if_splits)
    have "fl_mag f t \<le> 2 powr of_int (?et + 1)"
      using assms(1) by (rule fl_mag_upper)
    also have "\<dots> \<le> 2 powr of_int ?eu"
      using lt by simp
    also have "\<dots> \<le> fl_mag f u"
      unfolding m using u n assms(3) by (rule fl_mag_lower)
    finally show ?thesis .
  qed
qed

section \<open>Rounding: sign, exact numbers, underflow\<close>

lemma fl_zero [simp]: "fl f 0 = 0"
  by (simp add: fl_def)

lemma fl_minus: "fl f (- r) = - fl f r"
  by (simp add: fl_def sgn_minus)

lemma fl_nonneg: "0 \<le> r \<Longrightarrow> 0 \<le> fl f r"
  unfolding fl_def by (intro mult_nonneg_nonneg fl_mag_nonneg) simp_all

lemma fl_pos_eq: "0 < r \<Longrightarrow> fl f r = fl_mag f r"
  by (simp add: fl_def)

lemma fl_mono:
  assumes "r \<le> s" and "1 \<le> precision f"
  shows "fl f r \<le> fl f s"
proof -
  consider "0 < r" | "r \<le> 0" "0 \<le> s" | "s < 0" by linarith
  then show ?thesis
  proof cases
    case 1
    then have "0 < s" using assms(1) by simp
    then show ?thesis
      using 1 assms by (simp add: fl_pos_eq fl_mag_mono)
  next
    case 2
    have "0 \<le> fl f (- r)" using 2(1) by (intro fl_nonneg) simp
    then have "fl f r \<le> 0" by (simp add: fl_minus)
    also have "0 \<le> fl f s" using 2(2) by (rule fl_nonneg)
    finally show ?thesis .
  next
    case 3
    then have "0 < - s" "- s \<le> - r" using assms(1) by simp_all
    then have "fl_mag f (- s) \<le> fl_mag f (- r)"
      using assms(2) by (rule fl_mag_mono)
    moreover have "fl f (- s) = fl_mag f (- s)" "fl f (- r) = fl_mag f (- r)"
      using 3 assms(1) by (simp_all add: fl_pos_eq)
    ultimately show ?thesis
      by (simp add: fl_minus)
  qed
qed

lemma fl_mag_exact:
  assumes "0 < n" and "n < 2 ^ precision f"
    and "min_exponent f - (int (precision f) - 1) \<le> k"
  shows "fl_mag f (of_int n * 2 powr of_int k) = of_int n * 2 powr of_int k"
proof -
  define t :: real where "t = of_int n * 2 powr of_int k"
  define q where "q = quantum f t"
  define e where "e = quantum_exp f t"
  have t: "0 < t" using assms(1) by (simp add: t_def)
  have q: "0 < q" by (simp add: q_def)
  have "t < 2 ^ precision f * 2 powr of_int k"
  proof -
    have "real_of_int n < 2 ^ precision f"
      using assms(2) by (metis of_int_less_iff of_int_numeral of_int_power)
    then show ?thesis by (simp add: t_def)
  qed
  also have "\<dots> = 2 powr of_int (k + int (precision f))"
    by (simp add: powr_add powr_realpow mult.commute)
  finally have "(2::real) powr of_int \<lfloor>log 2 t\<rfloor> < 2 powr of_int (k + int (precision f))"
    using floor_log_bounds(1) [OF t] by linarith
  then have "\<lfloor>log 2 t\<rfloor> < k + int (precision f)"
    by simp
  then have e: "e \<le> k"
    using assms(3) by (simp add: quantum_exp_def e_def)
  define j where "j = nat (k - e)"
  have "of_int k = real j + real_of_int e"
    using e by (simp add: j_def)
  then have "(2::real) powr of_int k = 2 powr (real j + of_int e)"
    by (rule arg_cong)
  also have "\<dots> = 2 powr real j * 2 powr of_int e"
    by (rule powr_add)
  also have "\<dots> = 2 ^ j * q"
    by (simp add: powr_realpow quantum_def q_def e_def)
  finally have k: "2 powr of_int k = 2 ^ j * q" .
  have tq: "t = of_int (n * 2 ^ j) * q"
    by (simp add: t_def k)
  then have "t / q = of_int (n * 2 ^ j)"
    using q by simp
  then have "round_even (t / q) = n * 2 ^ j"
    by (simp only: round_even_of_int)
  then have "fl_mag f t = of_int (n * 2 ^ j) * q"
    by (simp only: fl_mag_def q_def)
  then have "fl_mag f t = t"
    by (simp only: tq [symmetric])
  then show ?thesis
    by (simp only: t_def)
qed

lemma fl_exact:
  assumes "representable f r"
  shows "fl f r = r"
proof -
  obtain n k where r: "r = of_int n * 2 powr of_int k" and n: "\<bar>n\<bar> < 2 ^ precision f"
    and k: "min_exponent f - (int (precision f) - 1) \<le> k"
    using assms unfolding representable_def by blast
  consider "n = 0" | "0 < n" | "n < 0" by linarith
  then show ?thesis
  proof cases
    case 1
    then show ?thesis by (simp add: r)
  next
    case 2
    then have "0 < r" by (simp add: r)
    then show ?thesis
      using fl_mag_exact [OF 2 _ k] n 2 by (simp add: fl_pos_eq r)
  next
    case 3
    then have p: "0 < - n" "- n < 2 ^ precision f" using n by simp_all
    have "0 < - r" using 3 by (simp add: r mult_neg_pos)
    then have "fl f (- r) = fl_mag f (- r)" by (rule fl_pos_eq)
    also have "- r = of_int (- n) * 2 powr of_int k" by (simp add: r)
    also have "fl_mag f \<dots> = of_int (- n) * 2 powr of_int k"
      using p k by (rule fl_mag_exact)
    finally show ?thesis
      by (simp add: fl_minus r)
  qed
qed

lemma fl_mag_representable:
  assumes "0 < t" and "1 \<le> precision f"
  shows "representable f (fl_mag f t)"
proof -
  let ?m = "round_even (t / quantum f t)"
  have m0: "0 \<le> ?m"
    using assms(1) by (intro round_even_nonneg) simp
  have m1: "?m \<le> 2 ^ precision f"
    using assms(1) by (rule round_even_ratio_le)
  have e: "min_exponent f - (int (precision f) - 1) \<le> quantum_exp f t"
    by (simp add: quantum_exp_def)
  show ?thesis
  proof (cases "?m = 2 ^ precision f")
    case False
    then have "\<bar>?m\<bar> < 2 ^ precision f" using m0 m1 by simp
    moreover have "fl_mag f t = of_int ?m * 2 powr of_int (quantum_exp f t)"
      by (simp add: fl_mag_def quantum_def)
    ultimately show ?thesis
      unfolding representable_def using e by blast
  next
    case True
    have "(2::real) ^ precision f = 2 ^ (precision f - 1) * 2"
      using assms(2) by (simp add: power_eq_if)
    moreover have "fl_mag f t = 2 ^ precision f * quantum f t"
      by (simp add: fl_mag_def True)
    ultimately have "fl_mag f t = of_int (2 ^ (precision f - 1)) * (2 powr 1 * 2 powr of_int (quantum_exp f t))"
      by (simp add: quantum_def)
    also have "(2::real) powr 1 * 2 powr of_int (quantum_exp f t) = 2 powr of_int (quantum_exp f t + 1)"
      by (simp add: powr_add)
    finally have "fl_mag f t = of_int (2 ^ (precision f - 1)) * 2 powr of_int (quantum_exp f t + 1)" .
    moreover have "\<bar>2 ^ (precision f - 1) :: int\<bar> < 2 ^ precision f"
      using assms(2) by simp
    moreover have "min_exponent f - (int (precision f) - 1) \<le> quantum_exp f t + 1"
      using e by simp
    ultimately show ?thesis
      unfolding representable_def by blast
  qed
qed

lemma representable_minus: "representable f r \<Longrightarrow> representable f (- r)"
proof -
  assume "representable f r"
  then obtain n k where "r = of_int n * 2 powr of_int k" "\<bar>n\<bar> < 2 ^ precision f"
    "min_exponent f - (int (precision f) - 1) \<le> k"
    unfolding representable_def by blast
  then have "- r = of_int (- n) * 2 powr of_int k \<and> \<bar>- n\<bar> < 2 ^ precision f
      \<and> min_exponent f - (int (precision f) - 1) \<le> k"
    by simp
  then show ?thesis
    unfolding representable_def by blast
qed

lemma representable_zero: "representable f 0"
  unfolding representable_def
  by (rule exI [of _ 0], rule exI [of _ "min_exponent f - (int (precision f) - 1)"]) simp

lemma fl_representable:
  assumes "1 \<le> precision f"
  shows "representable f (fl f r)"
proof -
  consider "r = 0" | "0 < r" | "r < 0" by linarith
  then show ?thesis
  proof cases
    case 1
    then show ?thesis by (simp add: representable_zero)
  next
    case 2
    then show ?thesis
      using fl_mag_representable [OF 2 assms] by (simp add: fl_pos_eq)
  next
    case 3
    then have p: "0 < - r" by simp
    have "representable f (fl f (- r))"
      using fl_mag_representable [OF p assms] p by (simp add: fl_pos_eq)
    then have "representable f (- fl f (- r))"
      by (rule representable_minus)
    then show ?thesis by (simp add: fl_minus)
  qed
qed

lemma fl_idem: "1 \<le> precision f \<Longrightarrow> fl f (fl f r) = fl f r"
  by (intro fl_exact fl_representable)

lemma fl_underflow:
  assumes "\<bar>r\<bar> \<le> 2 powr of_int (min_exponent f - int (precision f))"
    and "1 \<le> precision f"
  shows "fl f r = 0"
proof (cases "r = 0")
  case True
  then show ?thesis by simp
next
  case False
  let ?t = "\<bar>r\<bar>"
  have t: "0 < ?t" using False by simp
  have "2 powr of_int \<lfloor>log 2 ?t\<rfloor> \<le> ?t"
    using t by (rule floor_log_bounds)
  also note assms(1)
  also have "(2::real) powr of_int (min_exponent f - int (precision f)) < 2 powr of_int (min_exponent f)"
    using assms(2) by simp
  finally have "\<lfloor>log 2 ?t\<rfloor> < min_exponent f"
    by simp
  then have q: "quantum_exp f ?t = min_exponent f - int (precision f) + 1"
    by (simp add: quantum_exp_def)
  have "of_int (min_exponent f - int (precision f)) = of_int (quantum_exp f ?t) + (- 1 :: real)"
    by (simp add: q)
  then have "2 powr of_int (min_exponent f - int (precision f)) = quantum f ?t * 2 powr (- 1)"
    by (simp only: powr_add quantum_def)
  then have "?t \<le> quantum f ?t * (1 / 2)"
    using assms(1) by (simp add: powr_minus)
  then have "?t / quantum f ?t \<le> 1 / 2"
    by (simp add: pos_divide_le_eq mult.commute)
  moreover have "0 \<le> ?t / quantum f ?t"
    by simp
  ultimately have "round_even (?t / quantum f ?t) = 0"
    by (intro round_even_half)
  then show ?thesis
    by (simp add: fl_def fl_mag_def)
qed

lemma binary_formats [simp]:
  "precision binary64 = 53" "min_exponent binary64 = - 1022"
  "precision binary32 = 24" "min_exponent binary32 = - 126"
  by (simp_all add: binary64_def binary32_def)

lemma representable_dyadic:
  assumes "\<bar>n\<bar> < 2 ^ precision f" and "min_exponent f - (int (precision f) - 1) \<le> k"
  shows "representable f (of_int n * 2 powr of_int k)"
  unfolding representable_def using assms by blast

lemma fl_dyadic:
  assumes "\<bar>n\<bar> < 2 ^ precision f" and "min_exponent f - (int (precision f) - 1) \<le> k"
  shows "fl f (of_int n * 2 powr of_int k) = of_int n * 2 powr of_int k"
  by (intro fl_exact representable_dyadic assms)

lemma fl_int:
  assumes "\<bar>n\<bar> < 2 ^ precision f" and "min_exponent f - (int (precision f) - 1) \<le> 0"
  shows "fl f (of_int n) = of_int n"
  using fl_dyadic [OF assms] by simp


lemma fl32_values:
  "fl binary32 (- 5) = - 5" "fl binary32 3 = 3" "fl binary32 4 = 4" "fl binary32 8 = 8"
  "fl binary32 2 = 2" "fl binary32 1 = 1"
  using fl_int [of "- 5" binary32] fl_int [of 3 binary32] fl_int [of 4 binary32]
    fl_int [of 8 binary32] fl_int [of 2 binary32] fl_int [of 1 binary32]
  by simp_all

lemma fl32_fractions:
  "fl binary32 (1 / 2) = 1 / 2" "fl binary32 (1 / 8) = 1 / 8" "fl binary32 (1 / 16) = 1 / 16"
  using fl_dyadic [of 1 binary32 "- 1"] fl_dyadic [of 1 binary32 "- 3"] fl_dyadic [of 1 binary32 "- 4"]
  by (simp_all add: powr_minus powr_numeral inverse_eq_divide)

lemma fl64_values:
  "fl binary64 10 = 10" "fl binary64 100 = 100" "fl binary64 (- 800) = - 800"
  "fl binary64 4 = 4" "fl binary64 16 = 16" "fl binary64 (- 32) = - 32" "fl binary64 2 = 2"
  "fl binary64 1 = 1"
  using fl_int [of 10 binary64] fl_int [of 100 binary64] fl_int [of "- 800" binary64]
    fl_int [of 4 binary64] fl_int [of 16 binary64] fl_int [of "- 32" binary64]
    fl_int [of 2 binary64] fl_int [of 1 binary64]
  by simp_all


lemma fl32_tenth: "0 < fl binary32 (1 / 10)" "fl binary32 (1 / 10) \<le> 1 / 8"
proof -
  have "fl binary32 (1 / 16) \<le> fl binary32 (1 / 10)"
    by (intro fl_mono) simp_all
  then show "0 < fl binary32 (1 / 10)"
    by (simp add: fl32_fractions)
  have "fl binary32 (1 / 10) \<le> fl binary32 (1 / 8)"
    by (intro fl_mono) simp_all
  then show "fl binary32 (1 / 10) \<le> 1 / 8"
    by (simp add: fl32_fractions)
qed

section \<open>The floating-point density and discriminator\<close>

lemma exp_minus_one_bounds: "1 / 3 \<le> exp (- 1 :: real)" "exp (- 1 :: real) \<le> 3 / 8"
proof -
  have "(1 / 3 :: real) \<le> (\<Sum>m<8. (- 1) ^ m / fact m)"
    unfolding taylor8 by simp
  also have "\<dots> \<le> exp (- 1)"
    by (rule exp_neg_taylor(1)) simp_all
  finally show "1 / 3 \<le> exp (- 1 :: real)" .
  have "exp (- 1 :: real) \<le> (\<Sum>m<9. (- 1) ^ m / fact m)"
    by (rule exp_neg_taylor(2)) simp_all
  also have "\<dots> \<le> 3 / 8"
    unfolding taylor9 by simp
  finally show "exp (- 1 :: real) \<le> 3 / 8" .
qed

lemma exp_minus_nat: "exp (- real n) = exp (- 1) ^ n"
  using exp_of_nat_mult [of n "- 1 :: real"] by simp

lemma exp_minus_800: "exp (- 800 :: real) \<le> 2 powr (- 1075)"
proof -
  have "exp (- real 800) = exp (- 1) ^ 800"
    by (rule exp_minus_nat)
  also have "\<dots> \<le> (3 / 8) ^ 800"
    using exp_minus_one_bounds(2) by (intro power_mono) simp_all
  also have "\<dots> \<le> 1 / 2 ^ 1075"
    by (simp add: power_divide field_simps)
  also have "\<dots> = 2 powr (- real 1075)"
    by (simp add: powr_minus powr_realpow inverse_eq_divide)
  finally show ?thesis by simp
qed


lemma fp_gaussian_model_nonneg:
  assumes "0 \<le> variance"
  shows "0 \<le> fp_gaussian_model fx fv x mean variance"
proof -
  have "0 \<le> fl binary64 pi"
    by (intro fl_nonneg) simp
  then have "0 \<le> fl fv (2 * fl binary64 pi)"
    by (intro fl_nonneg) simp
  then have "0 \<le> fl fv (fl fv (2 * fl binary64 pi) * variance)"
    using assms by (intro fl_nonneg) simp
  then have "0 \<le> fl fv (sqrt (fl fv (fl fv (2 * fl binary64 pi) * variance)))"
    by (intro fl_nonneg) simp
  moreover have "0 \<le> fl fx (exp (fl fx (- fl fx ((fl fx (x - mean)) ^ 2) / variance)))"
    by (intro fl_nonneg) simp
  ultimately show ?thesis
    unfolding fp_gaussian_model_def by (intro fl_nonneg) simp
qed




lemma fp_gaussian_underflow:
  "fp_make_gaussian_model binary64 (- 5) (1 / 10) (11 / 2) = 0"
proof -
  define v where "v = fl binary32 (1 / 10)"
  define d where "d = fl binary64 (11 / 2 - (- 5))"
  define s where "s = fl binary64 (d ^ 2)"
  define q where "q = fl binary64 (- s / v)"
  have v: "0 < v" "v \<le> 1 / 8"
    unfolding v_def by (rule fl32_tenth)+
  have "fl binary64 10 \<le> d"
    unfolding d_def by (intro fl_mono) simp_all
  then have d: "10 \<le> d"
    by (simp add: fl64_values)
  then have "10 ^ 2 \<le> d ^ 2"
    by (intro power_mono) simp_all
  then have "fl binary64 100 \<le> s"
    unfolding s_def by (intro fl_mono) simp_all
  then have s: "100 \<le> s"
    by (simp add: fl64_values)
  have "100 / (1 / 8) \<le> s / v"
    using s v by (intro frac_le) simp_all
  then have "- s / v \<le> - 800"
    by simp
  then have "q \<le> fl binary64 (- 800)"
    unfolding q_def by (intro fl_mono) simp_all
  then have q: "q \<le> - 800"
    by (simp add: fl64_values)
  have "exp q \<le> exp (- 800)"
    using q by simp
  also note exp_minus_800
  finally have "\<bar>exp q\<bar> \<le> 2 powr of_int (min_exponent binary64 - int (precision binary64))"
    by simp
  then have "fl binary64 (exp q) = 0"
    by (rule fl_underflow) simp
  then show ?thesis
    by (simp add: fp_make_gaussian_model_def fp_gaussian_model_def fl32_values
        v_def d_def s_def q_def)
qed



section \<open>Properties of the model\<close>

text \<open>
  C1. For a positive variance the density is
  \<open>exp (- (x - mean)\<^sup>2 / variance) / sqrt (2 * pi * variance)\<close>, with the squared
  deviation divided by the variance and not by twice the variance (the value agrees
  with the textbook formula only at \<open>x = mean\<close>). The exact value of this formula is
  strictly positive. The value computed in floating point is not: it is non-negative
  for every format, and it is exactly 0 where the exponential underflows, as at the
  grid point \<open>x = 5.5\<close> with mean \<open>-5\<close> and the binary32 variance nearest to \<open>0.1\<close>
  (the least values of the notebook's sliders).
\<close>

theorem gaussian_model_formula_nonneg:
  assumes "0 < variance"
  shows "gaussian_model x mean variance
           = exp (- ((x - mean) ^ 2) / variance) / sqrt (2 * pi * variance)
         \<and> 0 < gaussian_model x mean variance
         \<and> (gaussian_model x mean variance
              = exp (- ((x - mean) ^ 2) / (2 * variance)) / sqrt (2 * pi * variance))
             = (x = mean)
         \<and> 0 \<le> fp_gaussian_model fx fv x mean variance"
proof -
  have c: "(a / sqrt (2 * pi * variance) = b / sqrt (2 * pi * variance)) = (a = b)" for a b :: real
    using assms by simp
  have e: "(- d / variance = - d / (2 * variance)) = (d = 0)" for d :: real
    using assms by (simp add: field_simps)
  have "(gaussian_model x mean variance
          = exp (- ((x - mean) ^ 2) / (2 * variance)) / sqrt (2 * pi * variance))
      = (x = mean)"
    unfolding gaussian_model_def c exp_inj_iff e by simp
  moreover have "0 \<le> fp_gaussian_model fx fv x mean variance"
    using assms by (intro fp_gaussian_model_nonneg) simp
  ultimately show ?thesis
    using assms gaussian_model_pos [of variance x mean]
    by (simp add: gaussian_model_def)
qed

theorem gaussian_model_formula_nonneg_witness:
  "(0::real) < 1 / 2
   \<and> gaussian_model 0 3 (1 / 2) = exp (- 18) / sqrt pi
   \<and> 0 < gaussian_model 0 3 (1 / 2)
   \<and> gaussian_model 0 3 (1 / 2) \<noteq> exp (- 9) / sqrt pi
   \<and> 0 \<le> fp_gaussian_model binary64 binary32 0 3 (1 / 2)"
  using gaussian_model_formula_nonneg [of "1 / 2" 0 3 binary64 binary32]
  by simp

theorem gaussian_model_positive_counterexample:
  "0 < fl binary32 (1 / 10)
   \<and> fp_gaussian_model binary64 binary32 (11 / 2) (- 5) (fl binary32 (1 / 10)) = 0
   \<and> \<not> 0 < fp_gaussian_model binary64 binary32 (11 / 2) (- 5) (fl binary32 (1 / 10))"
  using fp_gaussian_underflow fl32_tenth(1)
  by (simp add: fp_make_gaussian_model_def fl32_values)




text \<open>
  C7. When the true and the generator parameters are the same pair with a positive
  variance, the discriminator is one half at every sample point.
\<close>

theorem discriminator_half_when_equal:
  assumes "0 < variance"
  shows "discriminator x (make_gaussian_model mean variance) (make_gaussian_model mean variance) = 1 / 2"
proof -
  have "0 < make_gaussian_model mean variance x"
    using assms by (rule gm_pos)
  then show ?thesis
    by (simp add: discriminator_def)
qed

theorem discriminator_half_when_equal_witness:
  "(0::real) < 1 \<and> discriminator 0 (make_gaussian_model 0 1) (make_gaussian_model 0 1) = 1 / 2"
  using discriminator_half_when_equal [of 1 0 0]
  by simp



text \<open>
  C9. The non-saturating curve is the generator density times the logarithm of the
  discriminator; the true density enters only through the discriminator: any other
  positive true density with the same discriminator value at a point gives the same
  curve value there.
\<close>

theorem nonsaturating_value_fn_formula:
  assumes "0 < variance_t" and "0 < variance_g"
  shows "nonsaturating_value_fn x (make_gaussian_model mean_t variance_t)
             (make_gaussian_model mean_g variance_g)
           = gaussian_model x mean_g variance_g
             * ln (discriminator x (make_gaussian_model mean_t variance_t)
                     (make_gaussian_model mean_g variance_g))
         \<and> (0 < p_true' x
              \<and> discriminator x p_true' (make_gaussian_model mean_g variance_g)
                  = discriminator x (make_gaussian_model mean_t variance_t)
                      (make_gaussian_model mean_g variance_g)
            \<longrightarrow> nonsaturating_value_fn x p_true' (make_gaussian_model mean_g variance_g)
                  = nonsaturating_value_fn x (make_gaussian_model mean_t variance_t)
                      (make_gaussian_model mean_g variance_g))"
  by (simp add: nonsaturating_value_fn_def Let_def make_gaussian_model_def)

theorem nonsaturating_value_fn_formula_witness:
  "(0::real) < 1 / 2 \<and> (0::real) < 1
   \<and> nonsaturating_value_fn 3 (\<lambda>y. 1 / sqrt pi) (make_gaussian_model 0 1)
     = nonsaturating_value_fn 3 (make_gaussian_model 3 (1 / 2)) (make_gaussian_model 0 1)"
proof -
  have "discriminator 3 (\<lambda>y. 1 / sqrt pi) (make_gaussian_model 0 1)
          = discriminator 3 (make_gaussian_model 3 (1 / 2)) (make_gaussian_model 0 1)"
    by (simp add: discriminator_def make_gaussian_model_def gaussian_model_def)
  moreover have "0 < (\<lambda>y::real. 1 / sqrt pi) 3"
    by simp
  ultimately show ?thesis
    using nonsaturating_value_fn_formula [of "1 / 2" 1 3 3 0 "\<lambda>y. 1 / sqrt pi"]
    by simp
qed

text \<open>
  C4. Pointwise, the curve of rule \<^verbatim>\<open>js\<close> is the curve of rule \<^verbatim>\<open>v\<close> minus the sum of
  the two densities times \<open>ln (1/2)\<close>.
\<close>

theorem value_fn_js_pointwise:
  assumes "0 < variance_t" and "0 < variance_g"
  shows "value_fn x (make_gaussian_model mean_t variance_t) (make_gaussian_model mean_g variance_g) ''js''
         = value_fn x (make_gaussian_model mean_t variance_t) (make_gaussian_model mean_g variance_g) ''v''
           - (gaussian_model x mean_t variance_t + gaussian_model x mean_g variance_g) * ln (1 / 2)"
  using value_fn_shift [of x "make_gaussian_model mean_t variance_t" "make_gaussian_model mean_g variance_g"]
  by (simp add: make_gaussian_model_def loghalf_def)

theorem value_fn_js_pointwise_witness:
  "(0::real) < 1 / 2 \<and> (0::real) < 1
   \<and> value_fn 0 (make_gaussian_model 3 (1 / 2)) (make_gaussian_model 0 1) ''js''
     = value_fn 0 (make_gaussian_model 3 (1 / 2)) (make_gaussian_model 0 1) ''v''
       - (gaussian_model 0 3 (1 / 2) + gaussian_model 0 0 1) * ln (1 / 2)"
  using value_fn_js_pointwise [of "1 / 2" 1 0 3 0]
  by simp

text \<open>
  C3. The curve of rule \<^verbatim>\<open>js\<close> is not the curve of rule \<^verbatim>\<open>v\<close> minus the constant
  \<open>2 * ln (1/2)\<close>, neither pointwise nor in the grid integral: the shift at a point is
  \<open>ln (1/2)\<close> times the sum of the two densities there, and the shift of the grid
  integral is \<open>ln (1/2)\<close> times the grid integral of that sum, on every grid. In the
  notebook's default configuration the sum of the densities at \<open>x = 0\<close> and its
  integral over the grid are both below 2, so the constant shift fails at that point
  and for that integral.
\<close>

theorem js_shift_by_density_mass:
  assumes "0 < variance_t" and "0 < variance_g"
  shows "value_fn x (make_gaussian_model mean_t variance_t) (make_gaussian_model mean_g variance_g) ''js''
           = value_fn x (make_gaussian_model mean_t variance_t) (make_gaussian_model mean_g variance_g) ''v''
             - (gaussian_model x mean_t variance_t + gaussian_model x mean_g variance_g) * ln (1 / 2)
         \<and> trapz (\<lambda>x. value_fn x (make_gaussian_model mean_t variance_t)
                          (make_gaussian_model mean_g variance_g) ''js'') grid
           = trapz (\<lambda>x. value_fn x (make_gaussian_model mean_t variance_t)
                            (make_gaussian_model mean_g variance_g) ''v'') grid
             - ln (1 / 2) * trapz (\<lambda>x. gaussian_model x mean_t variance_t
                                        + gaussian_model x mean_g variance_g) grid"
  using value_fn_shift [of x "make_gaussian_model mean_t variance_t" "make_gaussian_model mean_g variance_g"]
    trapz_value_fn_shift [of "make_gaussian_model mean_t variance_t"
      "make_gaussian_model mean_g variance_g" grid]
  by (simp add: make_gaussian_model_def loghalf_def)

theorem js_shift_by_density_mass_witness:
  "(0::real) < 1 / 2 \<and> (0::real) < 1
   \<and> value_fn 0 (make_gaussian_model 3 (1 / 2)) (make_gaussian_model 0 1) ''js''
       = value_fn 0 (make_gaussian_model 3 (1 / 2)) (make_gaussian_model 0 1) ''v''
         - (gaussian_model 0 3 (1 / 2) + gaussian_model 0 0 1) * ln (1 / 2)
   \<and> trapz (\<lambda>x. value_fn x (make_gaussian_model 3 (1 / 2)) (make_gaussian_model 0 1) ''js'') x_range
       = trapz (\<lambda>x. value_fn x (make_gaussian_model 3 (1 / 2)) (make_gaussian_model 0 1) ''v'') x_range
         - ln (1 / 2) * trapz (\<lambda>x. gaussian_model x 3 (1 / 2) + gaussian_model x 0 1) x_range"
  using js_shift_by_density_mass [of "1 / 2" 1 0 3 0 x_range]
  by simp

theorem js_shift_constant_counterexample:
  "value_fn 0 (make_gaussian_model 3 (1 / 2)) (make_gaussian_model 0 1) ''js''
     \<noteq> value_fn 0 (make_gaussian_model 3 (1 / 2)) (make_gaussian_model 0 1) ''v'' - 2 * ln (1 / 2)
   \<and> trapz (\<lambda>x. value_fn x (make_gaussian_model 3 (1 / 2)) (make_gaussian_model 0 1) ''js'') x_range
     \<noteq> trapz (\<lambda>x. value_fn x (make_gaussian_model 3 (1 / 2)) (make_gaussian_model 0 1) ''v'') x_range
         - 2 * ln (1 / 2)"
proof -
  let ?t = "make_gaussian_model 3 (1 / 2)" and ?g = "make_gaussian_model 0 1"
  have l: "loghalf < 0"
    by (simp add: loghalf_eq)
  have h: "ln (1 / 2 :: real) = loghalf"
    by (simp add: loghalf_def)
  have "?t 0 \<le> 1 / sqrt (2 * pi * (1 / 2))" and "?g 0 \<le> 1 / sqrt (2 * pi * 1)"
    unfolding make_gaussian_model_def by (rule gaussian_model_le_peak, simp)+
  moreover have "1 / sqrt (2 * pi * (1 / 2)) < 1 / (1772 / 1000)"
    using sqrt_pi_bounds by (intro divide_strict_left_mono) simp_all
  moreover have "1 / sqrt (2 * pi * 1) < 1 / (5 / 2)"
    using sqrt_two_pi_lower by (intro divide_strict_left_mono) simp_all
  ultimately have "?t 0 + ?g 0 < 2"
    by simp
  then have "(?t 0 + ?g 0) * loghalf \<noteq> 2 * loghalf"
    using l by simp
  then have a: "value_fn 0 ?t ?g ''js'' \<noteq> value_fn 0 ?t ?g ''v'' - 2 * ln (1 / 2)"
    unfolding h value_fn_shift by simp
  have "trapz (\<lambda>x. ?t x + ?g x) x_range
      = trapz (\<lambda>x. gaussian_model x 3 (1 / 2)) x_range + trapz (\<lambda>x. gaussian_model x 0 1) x_range"
    unfolding make_gaussian_model_def trapz_add ..
  then have "trapz (\<lambda>x. ?t x + ?g x) x_range < 2"
    using trapz_true_upper trapz_std_upper by simp
  then have "loghalf * trapz (\<lambda>x. ?t x + ?g x) x_range \<noteq> 2 * loghalf"
    using l by simp
  then have b: "trapz (\<lambda>x. value_fn x ?t ?g ''js'') x_range
      \<noteq> trapz (\<lambda>x. value_fn x ?t ?g ''v'') x_range - 2 * ln (1 / 2)"
    unfolding h trapz_value_fn_shift by simp
  show ?thesis
    using a b by simp
qed

text \<open>
  C5. For every mean and positive variance, the trapezoidal sum of the density over
  the notebook's grid, shifted to the mean and scaled by the square root of the variance
  (for mean 0 and variance 1 this is the grid itself), is within \<open>1/1000\<close> of
  \<open>1 / sqrt 2\<close>, and so differs from 1 by more than \<open>0.29\<close>.
\<close>

theorem density_grid_integral:
  assumes "0 < variance"
  shows "\<bar>trapz (\<lambda>x. gaussian_model x mean variance)
            (map (\<lambda>u. mean + sqrt variance * u) x_range) - 1 / sqrt 2\<bar> < 1 / 1000
         \<and> 29 / 100 < \<bar>trapz (\<lambda>x. gaussian_model x mean variance)
            (map (\<lambda>u. mean + sqrt variance * u) x_range) - 1\<bar>"
  unfolding trapz_rescaled_grid [OF assms]
  using trapz_std_near trapz_std_upper by linarith

theorem density_grid_integral_witness:
  "(0::real) < 1
   \<and> \<bar>trapz (\<lambda>x. gaussian_model x 0 1) x_range - 1 / sqrt 2\<bar> < 1 / 1000
   \<and> 29 / 100 < \<bar>trapz (\<lambda>x. gaussian_model x 0 1) x_range - 1\<bar>"
  using density_grid_integral [of 1 0]
  by simp

text \<open>
  C6. With both parameter pairs equal to mean 0 and variance 1, the curve of rule
  \<^verbatim>\<open>v\<close> is \<open>- ln 4\<close> times the density, and its trapezoidal sum over the grid is
  within \<open>1/500\<close> of \<open>- ln 4 / sqrt 2\<close>: more than \<open>2/5\<close> above the value \<open>- ln 4\<close>
  that the notebook's text gives for equal distributions.
\<close>

theorem minimax_integral_equal_params:
  "\<bar>trapz (\<lambda>x. value_fn x (make_gaussian_model 0 1) (make_gaussian_model 0 1) ''v'') x_range
      - (- ln 4 / sqrt 2)\<bar> < 1 / 500
   \<and> - ln 4 + 2 / 5
       < trapz (\<lambda>x. value_fn x (make_gaussian_model 0 1) (make_gaussian_model 0 1) ''v'') x_range"
proof -
  let ?I = "trapz (\<lambda>x. gaussian_model x 0 1) x_range"
  have l: "138 / 100 \<le> ln (4::real)" "ln (4::real) < 2"
    using ln_two_lower ln_2_less_1 by (simp_all add: ln_four)
  have "\<bar>- ln 4 * ?I - (- ln 4 / sqrt 2)\<bar> = ln 4 * \<bar>?I - 1 / sqrt 2\<bar>"
  proof -
    have "- ln 4 * ?I - (- ln 4 / sqrt 2) = - ln 4 * (?I - 1 / sqrt 2)"
      by (simp add: algebra_simps)
    then show ?thesis
      using l(1) by (simp add: abs_mult)
  qed
  also have "\<dots> \<le> 2 * \<bar>?I - 1 / sqrt 2\<bar>"
    using l(2) by (intro mult_right_mono) simp_all
  also have "\<dots> < 1 / 500"
    using trapz_std_near by simp
  finally have a: "\<bar>- ln 4 * ?I - (- ln 4 / sqrt 2)\<bar> < 1 / 500" .
  have "138 / 100 * (2918 / 10000) \<le> ln 4 * (1 - ?I)"
    using l(1) trapz_std_upper by (intro mult_mono) simp_all
  then have b: "- ln 4 + 2 / 5 < - ln 4 * ?I"
    by (simp add: algebra_simps)
  show ?thesis
    unfolding trapz_value_fn_equal_params using a b by simp
qed

text \<open>
  C10. In the default configuration (true mean 3 and variance 1/2, generator mean 0
  and variance 1, rule \<^verbatim>\<open>v\<close>) the discriminator is above \<open>0.9\<close> at \<open>x = 3\<close> and
  below \<open>0.2\<close> at \<open>x = 0\<close>. The trapezoidal sum of the curve over the grid is
  strictly greater than \<open>- ln 4\<close>, and so not less than \<open>- ln 4\<close>.
\<close>

theorem default_scenario_minimax:
  "9 / 10 < discriminator 3 (make_gaussian_model 3 (1 / 2)) (make_gaussian_model 0 1)
   \<and> discriminator 0 (make_gaussian_model 3 (1 / 2)) (make_gaussian_model 0 1) < 1 / 5
   \<and> - ln 4 < trapz (\<lambda>x. value_fn x (make_gaussian_model 3 (1 / 2)) (make_gaussian_model 0 1) ''v'')
                x_range"
  using discriminator_at_three discriminator_at_zero minimax_integral_lower
  by simp

theorem default_scenario_minimax_counterexample:
  "\<not> (9 / 10 < discriminator 3 (make_gaussian_model 3 (1 / 2)) (make_gaussian_model 0 1)
      \<and> discriminator 0 (make_gaussian_model 3 (1 / 2)) (make_gaussian_model 0 1) < 1 / 5
      \<and> trapz (\<lambda>x. value_fn x (make_gaussian_model 3 (1 / 2)) (make_gaussian_model 0 1) ''v'')
                x_range < - ln 4)"
  using minimax_integral_lower
  by simp

end
